theory Spec2Isabelle
  imports Main "HOL-Library.Word"
begin

section \<open>Bytes, errors and the buffer reader and writer\<close>

text \<open>
  A Buffer is a list of bytes. A BufferReader is modelled by the bytes it has not
  consumed yet (\<open>br.left()\<close> is their number); a read returns the value together with
  the remaining bytes, or the error it throws. A BufferWriter is modelled by the bytes
  written so far; the function named after a write method gives the bytes that the
  method appends. Reader and writer are those of the \<open>bufio\<close> package and the maps
  those of \<open>buffer-map\<close>; both packages are outside the sources and are modelled by
  what their methods do.
\<close>

type_synonym u8 = "8 word"

type_synonym u32 = "32 word"

type_synonym bytes = "u8 list"

text \<open>
  Everything the code throws. The assertions of the source are told apart by their
  message:
  \<^item> \<open>OutOfBounds\<close>, \<open>NonCanonicalVarint\<close>, \<open>NumberTooLarge\<close>: the reader's encoding
    errors (a read past the end, a varint not in its shortest form, a 64-bit value
    above 2^53 - 1);
  \<^item> \<open>InvalidMagic\<close>: 'Invalid PSBT magic bytes.';
  \<^item> \<open>DuplicateKey\<close>: every assertion whose message starts with 'Duplicate Key,'
    (the spec's DuplicateField);
  \<^item> \<open>NotUnsigned\<close>: 'Unsigned tx does not have empty scriptSigs and
    scriptWitnesses.' (the spec's InvalidFieldCombination for a signed transaction);
  \<^item> \<open>NoUnsignedTx\<close>: 'No unsigned transcation was provided.';
  \<^item> \<open>BadPubkeySize\<close>: 'Size of key was not the expected size for the type partial
    signature pubkey.';
  \<^item> \<open>InvalidPublicKey\<close>: 'Invalid public key.';
  \<^item> \<open>CannotSerialize\<close>: 'Can not serialize PSBT without unsigned TX.';
  \<^item> \<open>AssertionFailed\<close>: an assertion without a message (in \<open>PSBT.merge\<close>);
  \<^item> \<open>TypeError\<close>: a method call on \<open>null\<close>, a call of a method that does not exist,
    or \<open>sizeVarint\<close> of a number that is not an integer;
  \<^item> \<open>CodecError\<close>: whatever a collaborator's \<open>fromRaw\<close> throws;
  \<^item> \<open>ParseError\<close>: a malformed path string;
  \<^item> \<open>OutOfBoundsWrite\<close>: the encoding error of a writer of fixed size ('Out of bounds
    write').
\<close>

datatype error =
    OutOfBounds
  | NonCanonicalVarint
  | NumberTooLarge
  | InvalidMagic
  | DuplicateKey
  | NotUnsigned
  | NoUnsignedTx
  | BadPubkeySize
  | InvalidPublicKey
  | CannotSerialize
  | AssertionFailed
  | TypeError
  | CodecError
  | ParseError
  | OutOfBoundsWrite

subsection \<open>Fixed-width integers\<close>

text \<open>Little-endian bytes to a number and back (\<open>k\<close> bytes of \<open>n\<close>).\<close>

fun le_nat :: "bytes \<Rightarrow> nat" where
  "le_nat [] = 0"
| "le_nat (b # bs) = unat b + 256 * le_nat bs"

fun le_bytes :: "nat \<Rightarrow> nat \<Rightarrow> bytes" where
  "le_bytes 0 n = []"
| "le_bytes (Suc k) n = word_of_nat (n mod 256) # le_bytes k (n div 256)"

definition readU8 :: "bytes \<Rightarrow> error + (u8 \<times> bytes)" where
  "readU8 br = (case br of [] \<Rightarrow> Inl OutOfBounds | b # r \<Rightarrow> Inr (b, r))"

definition readU32 :: "bytes \<Rightarrow> error + (u32 \<times> bytes)" where
  "readU32 br =
     (if length br < 4 then Inl OutOfBounds
      else Inr (word_of_nat (le_nat (take 4 br)), drop 4 br))"

definition readU32BE :: "bytes \<Rightarrow> error + (u32 \<times> bytes)" where
  "readU32BE br =
     (if length br < 4 then Inl OutOfBounds
      else Inr (word_of_nat (le_nat (rev (take 4 br))), drop 4 br))"

definition writeU8 :: "u8 \<Rightarrow> bytes" where
  "writeU8 b = [b]"

definition writeU32 :: "u32 \<Rightarrow> bytes" where
  "writeU32 w = le_bytes 4 (unat w)"

definition writeU32BE :: "u32 \<Rightarrow> bytes" where
  "writeU32BE w = rev (le_bytes 4 (unat w))"

subsection \<open>Variable-length integers and length-prefixed bytes\<close>

text \<open>
  The Bitcoin varint of the reader and writer: one byte below 0xfd, else a marker byte
  0xfd, 0xfe or 0xff followed by 2, 4 or 8 little-endian bytes. The reader refuses a
  value that is not in its shortest form and a 64-bit value that is not a safe integer.
\<close>

definition readVarint :: "bytes \<Rightarrow> error + (nat \<times> bytes)" where
  "readVarint br =
     (case br of
        [] \<Rightarrow> Inl OutOfBounds
      | b # r \<Rightarrow>
          if b = 0xff then
            (if length r < 8 then Inl OutOfBounds
             else if 2 ^ 53 \<le> le_nat (take 8 r) then Inl NumberTooLarge
             else if le_nat (take 8 r) \<le> 0xffffffff then Inl NonCanonicalVarint
             else Inr (le_nat (take 8 r), drop 8 r))
          else if b = 0xfe then
            (if length r < 4 then Inl OutOfBounds
             else if le_nat (take 4 r) \<le> 0xffff then Inl NonCanonicalVarint
             else Inr (le_nat (take 4 r), drop 4 r))
          else if b = 0xfd then
            (if length r < 2 then Inl OutOfBounds
             else if le_nat (take 2 r) < 0xfd then Inl NonCanonicalVarint
             else Inr (le_nat (take 2 r), drop 2 r))
          else Inr (unat b, r))"

definition writeVarint :: "nat \<Rightarrow> bytes" where
  "writeVarint n =
     (if n < 0xfd then [word_of_nat n]
      else if n \<le> 0xffff then 0xfd # le_bytes 2 n
      else if n \<le> 0xffffffff then 0xfe # le_bytes 4 n
      else 0xff # le_bytes 8 n)"

text \<open>
  \<open>sizeVarint\<close> of a non-negative integer. Called with a number that is not an integer
  it throws a TypeError; the one call whose argument need not be an integer is modelled
  where it is made, in \<open>PSBT.getSize\<close>.
\<close>

definition sizeVarint :: "nat \<Rightarrow> nat" where
  "sizeVarint num =
     (if num < 0xfd then 1
      else if num \<le> 0xffff then 3
      else if num \<le> 0xffffffff then 5
      else 9)"

definition readBytes :: "nat \<Rightarrow> bytes \<Rightarrow> error + (bytes \<times> bytes)" where
  "readBytes n br = (if length br < n then Inl OutOfBounds else Inr (take n br, drop n br))"

definition readVarBytes :: "bytes \<Rightarrow> error + (bytes \<times> bytes)" where
  "readVarBytes br =
     (case readVarint br of
        Inl e \<Rightarrow> Inl e
      | Inr (n, r) \<Rightarrow> readBytes n r)"

definition writeVarBytes :: "bytes \<Rightarrow> bytes" where
  "writeVarBytes v = writeVarint (length v) @ v"

subsection \<open>BufferMap\<close>

text \<open>
  A BufferMap keeps its entries in insertion order; setting a key that is already
  there replaces the value in place.
\<close>

type_synonym 'v BufferMap = "(bytes \<times> 'v) list"

definition BufferMap_has :: "'v BufferMap \<Rightarrow> bytes \<Rightarrow> bool" where
  "BufferMap_has m k = (k \<in> set (map fst m))"

fun BufferMap_set :: "'v BufferMap \<Rightarrow> bytes \<Rightarrow> 'v \<Rightarrow> 'v BufferMap" where
  "BufferMap_set [] k v = [(k, v)]"
| "BufferMap_set (e # m) k v = (if fst e = k then (k, v) # m else e # BufferMap_set m k v)"

definition BufferMap_values :: "'v BufferMap \<Rightarrow> 'v list" where
  "BufferMap_values m = map snd m"

subsection \<open>Every read consumes at least one byte\<close>

text \<open>This is what makes the read loops below terminate.\<close>

lemma readVarint_shorter: "readVarint br = Inr (n, r) \<Longrightarrow> length r < length br"
  by (auto simp: readVarint_def split: list.splits if_splits)

lemma readVarBytes_shorter: "readVarBytes br = Inr (v, r) \<Longrightarrow> length r < length br"
  by (auto simp: readVarBytes_def readBytes_def split: sum.splits if_splits
      dest!: readVarint_shorter)

section \<open>Constants (psbt/common.js)\<close>

definition MAGIC :: u32 where "MAGIC = 0x70736274"

definition MAGIC_SEP :: u8 where "MAGIC_SEP = 0xff"

definition SEPARATOR :: u8 where "SEPARATOR = 0x00"

text \<open>\<open>globalTypes\<close>\<close>

definition UNSIGNED_TX :: u8 where "UNSIGNED_TX = 0x00"

text \<open>\<open>inputTypes\<close>\<close>

definition NON_WITNESS_UTXO :: u8 where "NON_WITNESS_UTXO = 0x00"

definition WITNESS_UTXO :: u8 where "WITNESS_UTXO = 0x01"

definition PARTIAL_SIG :: u8 where "PARTIAL_SIG = 0x02"

definition SIGHASH :: u8 where "SIGHASH = 0x03"

definition REDEEMSCRIPT :: u8 where "REDEEMSCRIPT = 0x04"

definition WITNESSSCRIPT :: u8 where "WITNESSSCRIPT = 0x05"

definition BIP32_DERIVATION :: u8 where "BIP32_DERIVATION = 0x06"

definition SCRIPTSIG :: u8 where "SCRIPTSIG = 0x07"

definition SCRIPTWITNESS :: u8 where "SCRIPTWITNESS = 0x08"

lemmas common_defs =
  MAGIC_def MAGIC_SEP_def SEPARATOR_def UNSIGNED_TX_def NON_WITNESS_UTXO_def
  WITNESS_UTXO_def PARTIAL_SIG_def SIGHASH_def REDEEMSCRIPT_def WITNESSSCRIPT_def
  BIP32_DERIVATION_def SCRIPTSIG_def SCRIPTWITNESS_def

section \<open>Collaborators\<close>

text \<open>
  The transaction, output, script and witness classes, the public-key check and the
  hash are not part of the PSBT sources. Their values are modelled by the fields the
  PSBT code and the serialization read (a script by its raw bytes, a witness by its
  items), and their functions are parameters, collected in \<open>env\<close>: \<open>TX_fromRaw\<close> stands
  for both \<open>TX.fromRaw\<close> and \<open>MTX.fromRaw\<close> (MTX extends TX), \<open>TX_toRaw\<close> for the bytes
  of \<open>toRaw()\<close> and \<open>toWriter(bw)\<close>, \<open>TX_getSize\<close> for \<open>getSize()\<close>.
\<close>

type_synonym Script = bytes

type_synonym Witness = "bytes list"

record Input =
  prevout_hash :: bytes
  prevout_index :: nat
  script_raw :: bytes
  sequence :: nat
  witness_items :: "bytes list"

record Output =
  out_value :: nat
  out_script :: bytes

record TX =
  tx_version :: nat
  tx_inputs :: "Input list"
  tx_outputs :: "Output list"
  tx_locktime :: nat

record env =
  TX_fromRaw :: "bytes \<Rightarrow> error + TX"
  TX_toRaw :: "TX \<Rightarrow> bytes"
  TX_getSize :: "TX \<Rightarrow> nat"
  Output_fromRaw :: "bytes \<Rightarrow> error + Output"
  Output_toRaw :: "Output \<Rightarrow> bytes"
  Output_getSize :: "Output \<Rightarrow> nat"
  Script_fromRaw :: "bytes \<Rightarrow> error + Script"
  Witness_fromRaw :: "bytes \<Rightarrow> error + Witness"
  publicKeyVerify :: "bytes \<Rightarrow> bool"
  hash160 :: "bytes \<Rightarrow> bytes"

section \<open>Path (psbt/path.js)\<close>

record Path =
  masterFingerPrint :: u32
  indexes :: "u32 list"

definition Path_new :: Path where
  "Path_new = \<lparr>masterFingerPrint = 0, indexes = []\<rparr>"

definition Path_getSize :: "Path \<Rightarrow> nat" where
  "Path_getSize this = 4 + length (indexes this) * 4"

definition Path_write :: "Path \<Rightarrow> bytes" where
  "Path_write this = writeU32BE (masterFingerPrint this) @ concat (map writeU32 (indexes this))"

text \<open>The loop \<open>while (br.left()) this.indexes.push(br.readU32())\<close>.\<close>

function Path_read_indexes :: "Path \<Rightarrow> bytes \<Rightarrow> error + (Path \<times> bytes)" where
  "Path_read_indexes this br =
     (if length br = 0 then Inr (this, br)
      else case readU32 br of
             Inl e \<Rightarrow> Inl e
           | Inr (i, br') \<Rightarrow> Path_read_indexes (this\<lparr>indexes := indexes this @ [i]\<rparr>) br')"
  by pat_completeness auto

termination
  by (relation "measure (\<lambda>(this, br). length br)")
    (auto simp: readU32_def split: if_splits)

declare Path_read_indexes.simps [simp del]

definition Path_read :: "Path \<Rightarrow> bytes \<Rightarrow> error + (Path \<times> bytes)" where
  "Path_read this br =
     (case readU32BE br of
        Inl e \<Rightarrow> Inl e
      | Inr (f, br') \<Rightarrow> Path_read_indexes (this\<lparr>indexes := [], masterFingerPrint := f\<rparr>) br')"

text \<open>\<open>fromRaw\<close> and \<open>toRaw\<close> are those of the Struct base class: read from a reader
  over the data, write to a fresh writer.\<close>

definition Path_fromRaw :: "bytes \<Rightarrow> error + Path" where
  "Path_fromRaw data =
     (case Path_read Path_new data of Inl e \<Rightarrow> Inl e | Inr (this, br) \<Rightarrow> Inr this)"

definition Path_toRaw :: "Path \<Rightarrow> bytes" where
  "Path_toRaw this = Path_write this"

section \<open>Path strings (hd/common.js)\<close>

text \<open>
  Modelled from the spec: \<open>HDCommon.toPath\<close> and \<open>HDCommon.parsePath\<close>, which \<open>Path.toPath\<close>
  and \<open>Path.fromPath\<close> call, are not among the sources. The spec gives the syntax
  \<open>m/i1/i2'/.../in\<close>, where each \<open>i\<close> is a decimal uint32 and a trailing \<open>'\<close> marks a
  hardened index (adds the high bit), and says that a malformed string (a non-numeric
  segment, trailing characters) fails with a ParseError.
\<close>

text \<open>Modelled from the spec: the high bit that marks a hardened index.\<close>

definition HARDENED :: nat where "HARDENED = 0x80000000"

text \<open>Modelled from the spec: the decimal digit of a number below 10.\<close>

definition digit_char :: "nat \<Rightarrow> char" where
  "digit_char d = ''0123456789'' ! d"

text \<open>Modelled from the spec: a number written in decimal.\<close>

function to_decimal :: "nat \<Rightarrow> string" where
  "to_decimal n = (if n < 10 then [digit_char n] else to_decimal (n div 10) @ [digit_char (n mod 10)])"
  by pat_completeness auto

termination
  by (relation "measure id") auto

declare to_decimal.simps [simp del]

text \<open>Modelled from the spec: the characters \<open>0\<close> to \<open>9\<close>.\<close>

definition is_digit :: "char \<Rightarrow> bool" where
  "is_digit c = (48 \<le> (of_char c :: nat) \<and> (of_char c :: nat) \<le> 57)"

text \<open>Modelled from the spec: the number a decimal numeral stands for; a segment that
  is empty or has another character is not numeric.\<close>

definition parse_decimal :: "string \<Rightarrow> nat option" where
  "parse_decimal s =
     (if s = [] \<or> \<not> list_all is_digit s then None
      else Some (foldl (\<lambda>acc c. 10 * acc + (of_char c - 48)) 0 s))"

text \<open>Modelled from the spec: the segments of a path string, separated by \<open>/\<close>.\<close>

fun split_slash :: "string \<Rightarrow> string list" where
  "split_slash [] = [[]]"
| "split_slash (c # cs) =
     (if c = CHR ''/'' then [] # split_slash cs
      else (case split_slash cs of [] \<Rightarrow> [[c]] | part # parts \<Rightarrow> (c # part) # parts))"

text \<open>Modelled from the spec: the segment of one index, with a trailing \<open>'\<close> and
  without the high bit when the index is hardened.\<close>

definition path_segment :: "u32 \<Rightarrow> string" where
  "path_segment i =
     (if HARDENED \<le> unat i then to_decimal (unat i - HARDENED) @ [CHR 0x27]
      else to_decimal (unat i))"

text \<open>Modelled from the spec: \<open>HDCommon.toPath(indexes)\<close>, the string \<open>m/i1/.../in\<close>.\<close>

definition HDCommon_toPath :: "u32 list \<Rightarrow> string" where
  "HDCommon_toPath xs = ''m'' @ concat (map (\<lambda>i. CHR ''/'' # path_segment i) xs)"

text \<open>Modelled from the spec: the index of one segment, a decimal uint32 to which a
  trailing \<open>'\<close> adds the high bit.\<close>

definition parse_segment :: "string \<Rightarrow> error + u32" where
  "parse_segment part =
     (if part = [] then Inl ParseError
      else if last part = CHR 0x27 then
        (case parse_decimal (butlast part) of
           None \<Rightarrow> Inl ParseError
         | Some n \<Rightarrow> if HARDENED \<le> n then Inl ParseError else Inr (word_of_nat (n + HARDENED)))
      else
        (case parse_decimal part of
           None \<Rightarrow> Inl ParseError
         | Some n \<Rightarrow> if 2 ^ 32 \<le> n then Inl ParseError else Inr (word_of_nat n)))"

text \<open>Modelled from the spec: the indexes of the segments, in order.\<close>

fun parse_segments :: "string list \<Rightarrow> error + u32 list" where
  "parse_segments [] = Inr []"
| "parse_segments (part # parts) =
     (case parse_segment part of
        Inl e \<Rightarrow> Inl e
      | Inr i \<Rightarrow> (case parse_segments parts of Inl e \<Rightarrow> Inl e | Inr xs \<Rightarrow> Inr (i # xs)))"

text \<open>Modelled from the spec: \<open>HDCommon.parsePath(path, true)\<close>, for a string that
  starts with the segment \<open>m\<close>.\<close>

definition HDCommon_parsePath :: "string \<Rightarrow> error + u32 list" where
  "HDCommon_parsePath path =
     (case split_slash path of
        [] \<Rightarrow> Inl ParseError
      | root' # parts \<Rightarrow> if root' \<noteq> ''m'' then Inl ParseError else parse_segments parts)"

text \<open>
  The string methods of Path. A missing \<open>fingerPrint\<close> argument (\<open>None\<close>) defaults to
  \<open>this.masterFingerPrint\<close>.
\<close>

definition Path_toPath :: "Path \<Rightarrow> string" where
  "Path_toPath this = HDCommon_toPath (indexes this)"

definition Path_fromPath :: "Path \<Rightarrow> string \<Rightarrow> u32 option \<Rightarrow> error + Path" where
  "Path_fromPath this path fingerPrint =
     (case HDCommon_parsePath path of
        Inl e \<Rightarrow> Inl e
      | Inr xs \<Rightarrow>
          Inr (this\<lparr>indexes := xs,
                 masterFingerPrint :=
                   (case fingerPrint of None \<Rightarrow> masterFingerPrint this | Some f \<Rightarrow> f)\<rparr>))"

definition Path_fromString :: "Path \<Rightarrow> string \<Rightarrow> u32 option \<Rightarrow> error + Path" where
  "Path_fromString this path fingerPrint = Path_fromPath this path fingerPrint"

definition Path_toString :: "Path \<Rightarrow> string" where
  "Path_toString this = Path_toPath this"

section \<open>PSBTInput (psbt/input.js)\<close>

text \<open>
  \<open>bufio.readU32(data, 0)\<close>, the function of the package applied to a buffer: the
  little-endian number in the first four bytes; it throws 'Out of bounds read' when the
  buffer has fewer than four.
\<close>

definition bufio_readU32 :: "bytes \<Rightarrow> error + u32" where
  "bufio_readU32 data =
     (if length data < 4 then Inl OutOfBounds else Inr (word_of_nat (le_nat (take 4 data))))"

text \<open>
  \<open>hashType\<close> is an unsigned 32-bit number: the constructor sets it to 0, \<open>read\<close> to the
  result of \<open>bufio.readU32\<close>, and \<open>write\<close> passes it to \<open>writeU32\<close>.
\<close>

text \<open>The field \<open>output\<close> of the source is \<open>output'\<close> here (\<open>output\<close> is reserved).\<close>

record PSBTInput =
  tx :: "TX option"
  output' :: "Output option"
  redeem :: "Script option"
  redeemWitness :: "Script option"
  script :: "Script option"
  witnessStack :: "Witness option"
  hashType :: u32
  paths :: "Path BufferMap"
  signatures :: "(bytes \<times> bytes) BufferMap"
  input_unknown :: "bytes BufferMap"

definition PSBTInput_new :: PSBTInput where
  "PSBTInput_new =
     \<lparr>tx = None, output' = None, redeem = None, redeemWitness = None, script = None,
      witnessStack = None, hashType = 0, paths = [], signatures = [],
      input_unknown = []\<rparr>"

definition PSBTInput_getSize :: "env \<Rightarrow> PSBTInput \<Rightarrow> nat" where
  "PSBTInput_getSize env this =
     (case tx this of
        Some t \<Rightarrow> 2 + (sizeVarint (TX_getSize env t) + TX_getSize env t)
      | None \<Rightarrow>
          (case output' this of
             Some out \<Rightarrow> 2 + (sizeVarint (Output_getSize env out) + Output_getSize env out)
           | None \<Rightarrow> 0))
     + (if script this = None \<and> witnessStack this = None then
          sum_list (map (\<lambda>sigpair.
              sizeVarint (1 + length (fst sigpair)) + (1 + length (fst sigpair))
              + (sizeVarint (length (snd sigpair)) + length (snd sigpair)))
            (BufferMap_values (signatures this)))
          + (if 0 < hashType this then 2 + (1 + 4) else 0)
        else 0)"

text \<open>
  \<open>write\<close>: the bytes appended to the writer. The branch \<open>if (this.redeem)\<close> of the
  source has an empty body; nothing is written for the redeem script, the witness
  script, the paths, the final script, the final witness or the unknown fields.
\<close>

definition PSBTInput_write :: "env \<Rightarrow> PSBTInput \<Rightarrow> bytes" where
  "PSBTInput_write env this =
     (case tx this of
        Some t \<Rightarrow> writeVarint 1 @ writeU8 NON_WITNESS_UTXO @ writeVarBytes (TX_toRaw env t)
      | None \<Rightarrow>
          (case output' this of
             Some out \<Rightarrow>
               writeVarint 1 @ writeU8 WITNESS_UTXO @ writeVarBytes (Output_toRaw env out)
           | None \<Rightarrow> []))
     @ (if script this = None \<and> witnessStack this = None then
          concat (map (\<lambda>sigpair.
              writeVarint (length (fst sigpair) + 1) @ writeU8 PARTIAL_SIG @ fst sigpair
              @ writeVarBytes (snd sigpair))
            (BufferMap_values (signatures this)))
          @ (if 0 < hashType this then
               writeVarint 1 @ writeU8 SIGHASH @ writeVarint 4 @ writeU32 (hashType this)
             else [])
        else [])"

text \<open>
  The body of the \<open>switch\<close> in \<open>read\<close>: \<open>key\<close> is the non-empty key just read, \<open>br\<close> the
  reader after it.
\<close>

definition PSBTInput_read_field ::
  "env \<Rightarrow> PSBTInput \<Rightarrow> bytes \<Rightarrow> bytes \<Rightarrow> error + (PSBTInput \<times> bytes)" where
  "PSBTInput_read_field env this key br =
     (if hd key = NON_WITNESS_UTXO then
        (if tx this \<noteq> None then Inl DuplicateKey
         else case readVarBytes br of
                Inl e \<Rightarrow> Inl e
              | Inr (rawTX, br') \<Rightarrow>
                  (case TX_fromRaw env rawTX of
                     Inl e \<Rightarrow> Inl e
                   | Inr t \<Rightarrow> Inr (this\<lparr>tx := Some t\<rparr>, br')))
      else if hd key = WITNESS_UTXO then
        (if output' this \<noteq> None then Inl DuplicateKey
         else case readVarBytes br of
                Inl e \<Rightarrow> Inl e
              | Inr (rawOutput, br') \<Rightarrow>
                  (case Output_fromRaw env rawOutput of
                     Inl e \<Rightarrow> Inl e
                   | Inr out \<Rightarrow> Inr (this\<lparr>output' := Some out\<rparr>, br')))
      else if hd key = PARTIAL_SIG then
        (if \<not> (length key = 33 + 1 \<or> length key = 65 + 1) then Inl BadPubkeySize
         else if \<not> publicKeyVerify env (tl key) then Inl InvalidPublicKey
         else case readVarBytes br of
                Inl e \<Rightarrow> Inl e
              | Inr (signature, br') \<Rightarrow>
                  Inr (this\<lparr>signatures :=
                         BufferMap_set (signatures this) (hash160 env (tl key))
                           (tl key, signature)\<rparr>, br'))
      else if hd key = SIGHASH then
        (if hashType this \<noteq> 0 then Inl DuplicateKey
         else case readVarBytes br of
                Inl e \<Rightarrow> Inl e
              | Inr (hashType', br') \<Rightarrow>
                  (case bufio_readU32 hashType' of
                     Inl e \<Rightarrow> Inl e
                   | Inr w \<Rightarrow> Inr (this\<lparr>hashType := w\<rparr>, br')))
      else if hd key = REDEEMSCRIPT then
        (if redeem this \<noteq> None then Inl DuplicateKey
         else case readVarBytes br of
                Inl e \<Rightarrow> Inl e
              | Inr (rawScript, br') \<Rightarrow>
                  (case Script_fromRaw env rawScript of
                     Inl e \<Rightarrow> Inl e
                   | Inr s \<Rightarrow> Inr (this\<lparr>redeem := Some s\<rparr>, br')))
      else if hd key = WITNESSSCRIPT then
        (if redeemWitness this \<noteq> None then Inl DuplicateKey
         else case readVarBytes br of
                Inl e \<Rightarrow> Inl e
              | Inr (rawScript, br') \<Rightarrow>
                  (case Script_fromRaw env rawScript of
                     Inl e \<Rightarrow> Inl e
                   | Inr s \<Rightarrow> Inr (this\<lparr>redeemWitness := Some s\<rparr>, br')))
      else if hd key = BIP32_DERIVATION then
        (if \<not> publicKeyVerify env (tl key) then Inl InvalidPublicKey
         else case readVarBytes br of
                Inl e \<Rightarrow> Inl e
              | Inr (rawPath, br') \<Rightarrow>
                  (case Path_fromRaw rawPath of
                     Inl e \<Rightarrow> Inl e
                   | Inr path \<Rightarrow>
                       Inr (this\<lparr>paths :=
                              BufferMap_set (paths this) (hash160 env (tl key)) path\<rparr>, br')))
      else if hd key = SCRIPTSIG then
        (if script this \<noteq> None then Inl DuplicateKey
         else case readVarBytes br of
                Inl e \<Rightarrow> Inl e
              | Inr (rawScript, br') \<Rightarrow>
                  (case Script_fromRaw env rawScript of
                     Inl e \<Rightarrow> Inl e
                   | Inr s \<Rightarrow> Inr (this\<lparr>script := Some s\<rparr>, br')))
      else if hd key = SCRIPTWITNESS then
        (if witnessStack this \<noteq> None then Inl DuplicateKey
         else case readVarBytes br of
                Inl e \<Rightarrow> Inl e
              | Inr (rawStack, br') \<Rightarrow>
                  (case Witness_fromRaw env rawStack of
                     Inl e \<Rightarrow> Inl e
                   | Inr w \<Rightarrow> Inr (this\<lparr>witnessStack := Some w\<rparr>, br')))
      else
        (if BufferMap_has (input_unknown this) key then Inl DuplicateKey
         else case readVarBytes br of
                Inl e \<Rightarrow> Inl e
              | Inr (v, br') \<Rightarrow>
                  Inr (this\<lparr>input_unknown := BufferMap_set (input_unknown this) key v\<rparr>,
                       br')))"

lemma PSBTInput_read_field_shorter:
  "PSBTInput_read_field env this key br = Inr (this', br') \<Longrightarrow> length br' < length br"
  unfolding PSBTInput_read_field_def
  by (auto split: if_splits sum.splits dest: readVarBytes_shorter)

text \<open>
  The loop of \<open>read\<close>: it stops when the reader is empty or after a key of length 0
  (the separator).
\<close>

function PSBTInput_read :: "env \<Rightarrow> PSBTInput \<Rightarrow> bytes \<Rightarrow> error + (PSBTInput \<times> bytes)" where
  "PSBTInput_read env this br =
     (if length br = 0 then Inr (this, br)
      else case readVarBytes br of
             Inl e \<Rightarrow> Inl e
           | Inr (key, br1) \<Rightarrow>
               if length key = 0 then Inr (this, br1)
               else (case PSBTInput_read_field env this key br1 of
                       Inl e \<Rightarrow> Inl e
                     | Inr (this', br2) \<Rightarrow> PSBTInput_read env this' br2))"
  by pat_completeness auto

termination
proof (relation "measure (\<lambda>(env, this, br). length br)")
  show "wf (measure (\<lambda>(env, this, br). length br))"
    by simp
next
  fix env :: env and this this' :: PSBTInput and br key br1 br2 :: bytes
    and x :: "bytes \<times> bytes" and y :: "PSBTInput \<times> bytes"
  assume "readVarBytes br = Inr x" "(key, br1) = x"
    "PSBTInput_read_field env this key br1 = Inr y" "(this', br2) = y"
  then have "length br1 < length br" "length br2 < length br1"
    by (auto dest: readVarBytes_shorter PSBTInput_read_field_shorter)
  then show "((env, this', br2), (env, this, br)) \<in> measure (\<lambda>(env, this, br). length br)"
    by simp
qed

declare PSBTInput_read.simps [simp del]

text \<open>\<open>PSBTInput.fromReader(br)\<close>: \<open>read\<close> on a new instance.\<close>

definition PSBTInput_fromReader :: "env \<Rightarrow> bytes \<Rightarrow> error + (PSBTInput \<times> bytes)" where
  "PSBTInput_fromReader env br = PSBTInput_read env PSBTInput_new br"

definition PSBTInput_merge :: "PSBTInput \<Rightarrow> PSBTInput \<Rightarrow> PSBTInput" where
  "PSBTInput_merge this input = this"

definition PSBTInput_isSane :: "PSBTInput \<Rightarrow> bool" where
  "PSBTInput_isSane this =
     (if tx this \<noteq> None \<and> output' this \<noteq> None then False
      else if redeemWitness this \<noteq> None \<and> \<not> output' this \<noteq> None then False
      else if witnessStack this \<noteq> None \<and> \<not> output' this \<noteq> None then False
      else True)"

section \<open>PSBTOutput (psbt/output.js)\<close>

text \<open>The class has no fields; \<open>read\<close> consumes nothing and \<open>write\<close> writes nothing.\<close>

datatype PSBTOutput = PSBTOutput_new

definition PSBTOutput_getSize :: "PSBTOutput \<Rightarrow> nat" where
  "PSBTOutput_getSize this = 0"

definition PSBTOutput_write :: "PSBTOutput \<Rightarrow> bytes" where
  "PSBTOutput_write this = []"

definition PSBTOutput_read :: "PSBTOutput \<Rightarrow> bytes \<Rightarrow> error + (PSBTOutput \<times> bytes)" where
  "PSBTOutput_read this br = Inr (this, br)"

section \<open>PSBT (psbt/psbt.js)\<close>

record PSBT =
  inputs :: "PSBTInput list"
  outputs :: "PSBTOutput list"
  unknown :: "bytes BufferMap"
  mtx :: "TX option"

definition PSBT_new :: PSBT where
  "PSBT_new = \<lparr>inputs = [], outputs = [], unknown = [], mtx = None\<rparr>"

definition isTransactionUnsigned :: "TX \<Rightarrow> bool" where
  "isTransactionUnsigned m =
     list_all (\<lambda>input. \<not> (length (script_raw input) \<noteq> 0 \<or> length (witness_items input) \<noteq> 0))
       (tx_inputs m)"

text \<open>
  The loop of \<open>getSize\<close> over \<open>unknown.entries()\<close>: what it adds to the size. The keys
  are buffers, and the source takes half their length: for a key of odd length
  \<open>key.length / 2\<close> is not an integer and \<open>sizeVarint(key.length / 2)\<close> throws a
  TypeError.
\<close>

fun PSBT_getSize_unknown :: "bytes BufferMap \<Rightarrow> error + nat" where
  "PSBT_getSize_unknown [] = Inr 0"
| "PSBT_getSize_unknown ((key, v) # entries) =
     (if odd (length key) then Inl TypeError
      else case PSBT_getSize_unknown entries of
             Inl e \<Rightarrow> Inl e
           | Inr size' \<Rightarrow>
               Inr (sizeVarint (length key div 2) + length key div 2
                    + sizeVarint (length v) + length v + size'))"

text \<open>\<open>getSize\<close>: \<open>this.mtx.getSize()\<close> on a missing transaction is a TypeError.\<close>

definition PSBT_getSize :: "env \<Rightarrow> PSBT \<Rightarrow> error + nat" where
  "PSBT_getSize env this =
     (case mtx this of
        None \<Rightarrow> Inl TypeError
      | Some m \<Rightarrow>
          (case PSBT_getSize_unknown (unknown this) of
             Inl e \<Rightarrow> Inl e
           | Inr unknownSize \<Rightarrow>
               Inr (5
                 + 2 + sizeVarint (TX_getSize env m) + TX_getSize env m
                 + unknownSize
                 + 1
                 + sum_list (map (\<lambda>input. PSBTInput_getSize env input + 1) (inputs this)))))"

text \<open>
  \<open>write(bw)\<close>: the writer after the call, and the error thrown if any. The magic
  bytes are written before the assertion on \<open>this.mtx\<close>. \<open>writeVarBytes\<close> takes one
  argument (the \<open>'hex'\<close> passed with an unknown key is not read), and the keys of
  \<open>unknown.entries()\<close> are buffers.
\<close>

definition PSBT_write :: "env \<Rightarrow> PSBT \<Rightarrow> bytes \<Rightarrow> bytes \<times> error option" where
  "PSBT_write env this bw =
     (let bw1 = bw @ writeU32BE MAGIC @ writeU8 MAGIC_SEP in
      case mtx this of
        None \<Rightarrow> (bw1, Some CannotSerialize)
      | Some m \<Rightarrow>
          (bw1 @ writeVarint 1 @ writeU8 UNSIGNED_TX
             @ writeVarint (TX_getSize env m) @ TX_toRaw env m
             @ concat (map (\<lambda>(key, v). writeVarBytes key @ writeVarBytes v) (unknown this))
             @ writeU8 SEPARATOR
             @ concat (map (\<lambda>input. PSBTInput_write env input @ writeU8 SEPARATOR)
                 (inputs this)),
           None))"

text \<open>
  \<open>toRaw()\<close>, which is \<open>encode()\<close> of the class \<open>Struct\<close> of \<open>bufio\<close> that \<open>PSBT\<close>
  extends: it calls \<open>getSize()\<close>, runs \<open>write\<close> on a new writer of exactly that many
  bytes and returns what \<open>render()\<close> gives. A writer of fixed size throws 'Out of bounds
  write' at the first write that would pass its size, and \<open>render()\<close> throws when fewer
  bytes than its size were written. So \<open>write\<close> starts only when \<open>getSize()\<close> has
  returned, and the bytes are returned only when \<open>write\<close> produces exactly that many;
  an error of \<open>write\<close> itself is the outcome unless a write has passed the size before
  it. The model gives the outcome of the call, \<open>size'\<close> being the \<open>size\<close> of the source.
\<close>

definition PSBT_toRaw :: "env \<Rightarrow> PSBT \<Rightarrow> error + bytes" where
  "PSBT_toRaw env this =
     (case PSBT_getSize env this of
        Inl e \<Rightarrow> Inl e
      | Inr size' \<Rightarrow>
          (case PSBT_write env this [] of
             (bw, Some e) \<Rightarrow> if size' < length bw then Inl OutOfBoundsWrite else Inl e
           | (bw, None) \<Rightarrow> if length bw = size' then Inr bw else Inl OutOfBoundsWrite))"

text \<open>The body of the \<open>switch\<close> in \<open>read\<close> (global scope).\<close>

definition PSBT_read_field ::
  "env \<Rightarrow> PSBT \<Rightarrow> bytes \<Rightarrow> bytes \<Rightarrow> error + (PSBT \<times> bytes)" where
  "PSBT_read_field env this key br =
     (if hd key = UNSIGNED_TX then
        (if mtx this \<noteq> None then Inl DuplicateKey
         else case readVarBytes br of
                Inl e \<Rightarrow> Inl e
              | Inr (rawTX, br') \<Rightarrow>
                  (case TX_fromRaw env rawTX of
                     Inl e \<Rightarrow> Inl e
                   | Inr m \<Rightarrow>
                       if \<not> isTransactionUnsigned m then Inl NotUnsigned
                       else Inr (this\<lparr>mtx := Some m\<rparr>, br')))
      else
        (if BufferMap_has (unknown this) key then Inl DuplicateKey
         else case readVarBytes br of
                Inl e \<Rightarrow> Inl e
              | Inr (v, br') \<Rightarrow>
                  Inr (this\<lparr>unknown := BufferMap_set (unknown this) key v\<rparr>, br')))"

lemma PSBT_read_field_shorter:
  "PSBT_read_field env this key br = Inr (this', br') \<Longrightarrow> length br' < length br"
  unfolding PSBT_read_field_def
  by (auto split: if_splits sum.splits dest: readVarBytes_shorter)

text \<open>The \<open>while (br.left())\<close> loop of \<open>read\<close>.\<close>

function PSBT_read_global :: "env \<Rightarrow> PSBT \<Rightarrow> bytes \<Rightarrow> error + (PSBT \<times> bytes)" where
  "PSBT_read_global env this br =
     (if length br = 0 then Inr (this, br)
      else case readVarBytes br of
             Inl e \<Rightarrow> Inl e
           | Inr (key, br1) \<Rightarrow>
               if length key = 0 then Inr (this, br1)
               else (case PSBT_read_field env this key br1 of
                       Inl e \<Rightarrow> Inl e
                     | Inr (this', br2) \<Rightarrow> PSBT_read_global env this' br2))"
  by pat_completeness auto

termination
proof (relation "measure (\<lambda>(env, this, br). length br)")
  show "wf (measure (\<lambda>(env, this, br). length br))"
    by simp
next
  fix env :: env and this this' :: PSBT and br key br1 br2 :: bytes
    and x :: "bytes \<times> bytes" and y :: "PSBT \<times> bytes"
  assume "readVarBytes br = Inr x" "(key, br1) = x"
    "PSBT_read_field env this key br1 = Inr y" "(this', br2) = y"
  then have "length br1 < length br" "length br2 < length br1"
    by (auto dest: readVarBytes_shorter PSBT_read_field_shorter)
  then show "((env, this', br2), (env, this, br)) \<in> measure (\<lambda>(env, this, br). length br)"
    by simp
qed

declare PSBT_read_global.simps [simp del]

text \<open>The loop \<open>for (let i = 0; i < this.mtx.inputs.length; i++)\<close>, \<open>n\<close> rounds of it.\<close>

fun PSBT_read_inputs :: "env \<Rightarrow> nat \<Rightarrow> PSBT \<Rightarrow> bytes \<Rightarrow> error + (PSBT \<times> bytes)" where
  "PSBT_read_inputs env 0 this br = Inr (this, br)"
| "PSBT_read_inputs env (Suc n) this br =
     (case PSBTInput_fromReader env br of
        Inl e \<Rightarrow> Inl e
      | Inr (input, br') \<Rightarrow>
          PSBT_read_inputs env n (this\<lparr>inputs := inputs this @ [input]\<rparr>) br')"

definition PSBT_read :: "env \<Rightarrow> PSBT \<Rightarrow> bytes \<Rightarrow> error + (PSBT \<times> bytes)" where
  "PSBT_read env this br =
     (case readU32BE br of
        Inl e \<Rightarrow> Inl e
      | Inr (magic, br1) \<Rightarrow>
          (case readU8 br1 of
             Inl e \<Rightarrow> Inl e
           | Inr (magicSep, br2) \<Rightarrow>
               if \<not> (magic = MAGIC \<and> magicSep = MAGIC_SEP) then Inl InvalidMagic
               else (case PSBT_read_global env this br2 of
                       Inl e \<Rightarrow> Inl e
                     | Inr (this', br3) \<Rightarrow>
                         (case mtx this' of
                            None \<Rightarrow> Inl NoUnsignedTx
                          | Some m \<Rightarrow>
                              PSBT_read_inputs env (length (tx_inputs m)) this' br3))))"

text \<open>\<open>PSBT.fromReader(br)\<close>: \<open>read\<close> on a new instance.\<close>

definition PSBT_fromReader :: "env \<Rightarrow> bytes \<Rightarrow> error + (PSBT \<times> bytes)" where
  "PSBT_fromReader env br = PSBT_read env PSBT_new br"

definition PSBT_isSane :: "PSBT \<Rightarrow> bool" where
  "PSBT_isSane this = list_all PSBTInput_isSane (inputs this)"

text \<open>
  \<open>merge\<close>: the first loop asserts that the other PSBT has an input at each index of
  this one and calls \<open>PSBTInput.merge\<close>; the second does the same for the outputs, where
  \<open>output.merge\<close> is not a function (PSBTOutput defines none).
\<close>

fun merge_inputs :: "PSBTInput list \<Rightarrow> PSBTInput list \<Rightarrow> error + PSBTInput list" where
  "merge_inputs [] theirs = Inr []"
| "merge_inputs (input # rest) [] = Inl AssertionFailed"
| "merge_inputs (input # rest) (other # theirs) =
     (case merge_inputs rest theirs of
        Inl e \<Rightarrow> Inl e
      | Inr merged \<Rightarrow> Inr (PSBTInput_merge input other # merged))"

fun merge_outputs :: "PSBTOutput list \<Rightarrow> PSBTOutput list \<Rightarrow> error + PSBTOutput list" where
  "merge_outputs [] theirs = Inr []"
| "merge_outputs (out # rest) [] = Inl AssertionFailed"
| "merge_outputs (out # rest) (other # theirs) = Inl TypeError"

definition PSBT_merge :: "PSBT \<Rightarrow> PSBT \<Rightarrow> error + PSBT" where
  "PSBT_merge this psbt =
     (case merge_inputs (inputs this) (inputs psbt) of
        Inl e \<Rightarrow> Inl e
      | Inr ins \<Rightarrow>
          (case merge_outputs (outputs this) (outputs psbt) of
             Inl e \<Rightarrow> Inl e
           | Inr outs \<Rightarrow> Inr (this\<lparr>inputs := ins, outputs := outs\<rparr>)))"

section \<open>Scopes and canonical form\<close>

text \<open>The bytes of a run of key/value records, as a scope holds them.\<close>

definition scope_records :: "(bytes \<times> bytes) list \<Rightarrow> bytes" where
  "scope_records kvs = concat (map (\<lambda>(key, v). writeVarBytes key @ writeVarBytes v) kvs)"

text \<open>
  The bytes a scope loop consumes: the records it has read, followed by the
  separator unless the data ended first.
\<close>

definition consumed_scope :: "bytes \<Rightarrow> bytes \<Rightarrow> bool" where
  "consumed_scope s br' \<longleftrightarrow>
     (\<exists>kvs. (\<forall>(key, v) \<in> set kvs. key \<noteq> [])
        \<and> (s = scope_records kvs @ [SEPARATOR] \<or> s = scope_records kvs \<and> br' = []))"

text \<open>
  A run of scopes that is followed by the bytes \<open>br'\<close>: each scope is judged against
  the bytes that follow it, those of the later scopes and then \<open>br'\<close>.
\<close>

fun consumed_scopes :: "bytes list \<Rightarrow> bytes \<Rightarrow> bool" where
  "consumed_scopes [] br' \<longleftrightarrow> True"
| "consumed_scopes (s # scopes) br' \<longleftrightarrow>
     consumed_scope s (concat scopes @ br') \<and> consumed_scopes scopes br'"

text \<open>
  The input records decoded from such a run: the input decoder, started on a new
  record at the first byte of a scope, returns the record with the reader at the
  first byte after the scope.
\<close>

fun decoded_scopes :: "env \<Rightarrow> bytes list \<Rightarrow> PSBTInput list \<Rightarrow> bytes \<Rightarrow> bool" where
  "decoded_scopes env [] [] br' \<longleftrightarrow> True"
| "decoded_scopes env (s # scopes) (input # decoded) br' \<longleftrightarrow>
     PSBTInput_fromReader env (s @ concat scopes @ br') = Inr (input, concat scopes @ br')
     \<and> decoded_scopes env scopes decoded br'"
| "decoded_scopes env [] (input # decoded) br' \<longleftrightarrow> False"
| "decoded_scopes env (s # scopes) [] br' \<longleftrightarrow> False"

text \<open>
  The PSBTs that \<open>write\<close> encodes in full and \<open>read\<close> gives back. An input in
  canonical form holds only what \<open>PSBTInput.write\<close> emits: at most one of the two UTXOs,
  partial signatures (each entry under the hash of its public key, the key of a
  length and form that \<open>read\<close> accepts) and a sighash type; the collaborators decode
  what they encode for the values it holds. A PSBT in canonical form has an unsigned
  transaction, one canonical input per transaction input, no output records, and
  unknown global fields with distinct non-empty keys that do not start with the
  transaction's type byte.
\<close>

definition canonical_input :: "env \<Rightarrow> PSBTInput \<Rightarrow> bool" where
  "canonical_input env input \<longleftrightarrow>
     redeem input = None \<and> redeemWitness input = None \<and> script input = None
   \<and> witnessStack input = None \<and> paths input = [] \<and> input_unknown input = []
   \<and> (tx input = None \<or> output' input = None)
   \<and> (case tx input of
        None \<Rightarrow> True
      | Some t \<Rightarrow> length (TX_toRaw env t) < 2 ^ 53 \<and> TX_fromRaw env (TX_toRaw env t) = Inr t)
   \<and> (case output' input of
        None \<Rightarrow> True
      | Some out \<Rightarrow>
          length (Output_toRaw env out) < 2 ^ 53
          \<and> Output_fromRaw env (Output_toRaw env out) = Inr out)
   \<and> distinct (map fst (signatures input))
   \<and> list_all (\<lambda>(h, pubkey, sg).
          h = hash160 env pubkey \<and> (length pubkey = 33 \<or> length pubkey = 65)
          \<and> publicKeyVerify env pubkey \<and> length sg < 2 ^ 53)
        (signatures input)"

definition canonical :: "env \<Rightarrow> PSBT \<Rightarrow> bool" where
  "canonical env this \<longleftrightarrow>
     outputs this = []
   \<and> (case mtx this of
        None \<Rightarrow> False
      | Some m \<Rightarrow>
          isTransactionUnsigned m \<and> TX_getSize env m = length (TX_toRaw env m)
          \<and> length (TX_toRaw env m) < 2 ^ 53 \<and> TX_fromRaw env (TX_toRaw env m) = Inr m
          \<and> length (inputs this) = length (tx_inputs m))
   \<and> distinct (map fst (unknown this))
   \<and> list_all (\<lambda>(key, v).
          key \<noteq> [] \<and> hd key \<noteq> UNSIGNED_TX \<and> length key < 2 ^ 53 \<and> length v < 2 ^ 53)
        (unknown this)
   \<and> list_all (canonical_input env) (inputs this)"

section \<open>Sample values\<close>

text \<open>
  The values used in the concrete evaluations below. \<open>sample_tx_raw\<close> is the Bitcoin
  serialization of \<open>sample_tx\<close> (version 2, one input spending output 0 of the
  transaction 1111...11 with an empty script and sequence 0xffffffff, one output of
  100000000 satoshis to the script 0x51, locktime 0); \<open>signed_tx\<close> is the same
  transaction with the script 0x51 on its input. \<open>pubkey_G\<close> and \<open>pubkey_2G\<close> are the
  compressed secp256k1 public keys of the private keys 1 and 2, \<open>hash_G\<close> and
  \<open>hash_2G\<close> their hash160 digests.
\<close>

definition sample_tx :: TX where
  "sample_tx =
     \<lparr>tx_version = 2,
      tx_inputs = [\<lparr>prevout_hash = replicate 32 0x11, prevout_index = 0, script_raw = [],
                    sequence = 0xffffffff, witness_items = []\<rparr>],
      tx_outputs = [\<lparr>out_value = 100000000, out_script = [0x51]\<rparr>],
      tx_locktime = 0\<rparr>"

definition sample_tx_raw :: bytes where
  "sample_tx_raw =
     [0x02, 0x00, 0x00, 0x00, 0x01] @ replicate 32 0x11 @ [0x00, 0x00, 0x00, 0x00,
      0x00, 0xff, 0xff, 0xff, 0xff, 0x01, 0x00, 0xe1, 0xf5, 0x05, 0x00, 0x00, 0x00, 0x00,
      0x01, 0x51, 0x00, 0x00, 0x00, 0x00]"

definition signed_tx :: TX where
  "signed_tx =
     \<lparr>tx_version = 2,
      tx_inputs = [\<lparr>prevout_hash = replicate 32 0x11, prevout_index = 0, script_raw = [0x51],
                    sequence = 0xffffffff, witness_items = []\<rparr>],
      tx_outputs = [\<lparr>out_value = 100000000, out_script = [0x51]\<rparr>],
      tx_locktime = 0\<rparr>"

definition signed_tx_raw :: bytes where
  "signed_tx_raw =
     [0x02, 0x00, 0x00, 0x00, 0x01] @ replicate 32 0x11 @ [0x00, 0x00, 0x00, 0x00,
      0x01, 0x51, 0xff, 0xff, 0xff, 0xff, 0x01, 0x00, 0xe1, 0xf5, 0x05, 0x00, 0x00, 0x00,
      0x00, 0x01, 0x51, 0x00, 0x00, 0x00, 0x00]"

definition sample_output :: Output where
  "sample_output = \<lparr>out_value = 100000000, out_script = [0x51]\<rparr>"

definition sample_output_raw :: bytes where
  "sample_output_raw = [0x00, 0xe1, 0xf5, 0x05, 0x00, 0x00, 0x00, 0x00, 0x01, 0x51]"

definition pubkey_G :: bytes where
  "pubkey_G =
     [0x02, 0x79, 0xbe, 0x66, 0x7e, 0xf9, 0xdc, 0xbb, 0xac, 0x55, 0xa0, 0x62, 0x95,
      0xce, 0x87, 0x0b, 0x07, 0x02, 0x9b, 0xfc, 0xdb, 0x2d, 0xce, 0x28, 0xd9, 0x59,
      0xf2, 0x81, 0x5b, 0x16, 0xf8, 0x17, 0x98]"

definition hash_G :: bytes where
  "hash_G =
     [0x75, 0x1e, 0x76, 0xe8, 0x19, 0x91, 0x96, 0xd4, 0x54, 0x94, 0x1c, 0x45, 0xd1,
      0xb3, 0xa3, 0x23, 0xf1, 0x43, 0x3b, 0xd6]"

definition pubkey_2G :: bytes where
  "pubkey_2G =
     [0x02, 0xc6, 0x04, 0x7f, 0x94, 0x41, 0xed, 0x7d, 0x6d, 0x30, 0x45, 0x40, 0x6e,
      0x95, 0xc0, 0x7c, 0xd8, 0x5c, 0x77, 0x8e, 0x4b, 0x8c, 0xef, 0x3c, 0xa7, 0xab,
      0xac, 0x09, 0xb9, 0x5c, 0x70, 0x9e, 0xe5]"

definition hash_2G :: bytes where
  "hash_2G =
     [0x06, 0xaf, 0xd4, 0x6b, 0xcd, 0xfd, 0x22, 0xef, 0x94, 0xac, 0x12, 0x2a, 0xa1,
      0x1f, 0x24, 0x12, 0x44, 0xa3, 0x7e, 0xcc]"

text \<open>
  The collaborators at these values: each function is the real one on the values
  above; outside them the decoders fail.
\<close>

definition sample_env :: env where
  "sample_env =
     \<lparr>TX_fromRaw = (\<lambda>raw. if raw = sample_tx_raw then Inr sample_tx
                         else if raw = signed_tx_raw then Inr signed_tx
                         else Inl CodecError),
      TX_toRaw = (\<lambda>t. if t = sample_tx then sample_tx_raw
                       else if t = signed_tx then signed_tx_raw else []),
      TX_getSize = (\<lambda>t. if t = sample_tx then 61 else if t = signed_tx then 62 else 0),
      Output_fromRaw = (\<lambda>raw. if raw = sample_output_raw then Inr sample_output
                             else Inl CodecError),
      Output_toRaw = (\<lambda>out. if out = sample_output then sample_output_raw else []),
      Output_getSize = (\<lambda>out. if out = sample_output then 10 else 0),
      Script_fromRaw = (\<lambda>raw. if raw = [0x51] then Inr [0x51] else Inl CodecError),
      Witness_fromRaw = (\<lambda>raw. if raw = [0x01, 0x01, 0x51] then Inr [[0x51]]
                              else Inl CodecError),
      publicKeyVerify = (\<lambda>key. key = pubkey_G \<or> key = pubkey_2G),
      hash160 = (\<lambda>key. if key = pubkey_G then hash_G
                        else if key = pubkey_2G then hash_2G else [])\<rparr>"

lemmas sample_defs =
  sample_tx_def sample_tx_raw_def signed_tx_def signed_tx_raw_def sample_output_def
  sample_output_raw_def pubkey_G_def hash_G_def pubkey_2G_def hash_2G_def

text \<open>
  A PSBT with one unknown global field, key 0f 01 and value aa, as decoding produces
  it.
\<close>

definition psbt_with_unknown :: PSBT where
  "psbt_with_unknown =
     \<lparr>inputs = [PSBTInput_new], outputs = [], unknown = [([0x0f, 0x01], [0xaa])],
      mtx = Some sample_tx\<rparr>"

text \<open>
  Two PSBTs for the same transaction: the first input of \<open>psbt_A\<close> holds a partial
  signature of the key \<open>pubkey_G\<close>, that of \<open>psbt_B\<close> one of the key \<open>pubkey_2G\<close>.
\<close>

definition psbt_A :: PSBT where
  "psbt_A =
     \<lparr>inputs = [PSBTInput_new\<lparr>signatures := [(hash_G, (pubkey_G, [0x30, 0x01]))]\<rparr>],
      outputs = [], unknown = [], mtx = Some sample_tx\<rparr>"

definition psbt_B :: PSBT where
  "psbt_B =
     \<lparr>inputs = [PSBTInput_new\<lparr>signatures := [(hash_2G, (pubkey_2G, [0x30, 0x02]))]\<rparr>],
      outputs = [], unknown = [], mtx = Some sample_tx\<rparr>"

text \<open>
  A PSBT in canonical form: one unknown global field, and an input with a witness
  UTXO, a partial signature and a sighash type.
\<close>

definition psbt_signed_input :: PSBT where
  "psbt_signed_input =
     \<lparr>inputs = [PSBTInput_new\<lparr>output' := Some sample_output,
                  signatures := [(hash_G, (pubkey_G, [0x30, 0x01]))],
                  hashType := 1\<rparr>],
      outputs = [], unknown = [([0x0f, 0x01], [0xaa])], mtx = Some sample_tx\<rparr>"

definition psbt_signed_input_raw :: bytes where
  "psbt_signed_input_raw =
     [0x70, 0x73, 0x62, 0x74, 0xff, 0x01, 0x00, 61] @ sample_tx_raw
     @ [0x02, 0x0f, 0x01, 0x01, 0xaa, 0x00]
     @ [0x01, 0x01, 10] @ sample_output_raw
     @ [34, 0x02] @ pubkey_G @ [0x02, 0x30, 0x01]
     @ [0x01, 0x03, 0x04, 0x01, 0x00, 0x00, 0x00]
     @ [0x00]"

text \<open>
  Two byte sequences that decode: in the first the input scope has its sighash record
  before its partial signature; in the second the input scope has a redeem script.
\<close>

definition reordered_raw :: bytes where
  "reordered_raw =
     [0x70, 0x73, 0x62, 0x74, 0xff, 0x01, 0x00, 61] @ sample_tx_raw @ [0x00]
     @ [0x01, 0x03, 0x04, 0x01, 0x00, 0x00, 0x00]
     @ [34, 0x02] @ pubkey_G @ [0x02, 0x30, 0x01]
     @ [0x00]"

definition redeem_raw :: bytes where
  "redeem_raw =
     [0x70, 0x73, 0x62, 0x74, 0xff, 0x01, 0x00, 61] @ sample_tx_raw @ [0x00]
     @ [0x01, 0x04, 0x01, 0x51]
     @ [0x00]"

text \<open>Unfolding the model on concrete bytes.\<close>

lemmas eval_defs =
  PSBT_read_def PSBT_read_global.simps PSBT_read_field_def PSBTInput_read.simps
  PSBTInput_read_field_def PSBTInput_fromReader_def PSBT_fromReader_def
  readVarBytes_def readVarint_def readBytes_def readU32BE_def readU32_def readU8_def
  writeVarBytes_def writeVarint_def writeU8_def writeU32_def writeU32BE_def
  bufio_readU32_def isTransactionUnsigned_def common_defs
  PSBTInput_new_def PSBT_new_def sample_env_def sample_defs

section \<open>Basic facts about the reader and the writer\<close>

lemma length_le_bytes: "length (le_bytes k n) = k"
  by (induction k arbitrary: n) simp_all

lemma le_nat_le_bytes: "le_nat (le_bytes k n) = n mod 256 ^ k"
proof (induction k arbitrary: n)
  case 0
  show ?case by simp
next
  case (Suc k)
  have "unat (word_of_nat (n mod 256) :: u8) = n mod 256"
    by (simp add: unat_of_nat)
  then show ?case
    using Suc [of "n div 256"] by (simp add: mod_mult2_eq)
qed

lemma le_bytes_numeral [simp]:
  "le_bytes (numeral k) n = word_of_nat (n mod 256) # le_bytes (pred_numeral k) (n div 256)"
  by (simp only: numeral_eq_Suc [of k] le_bytes.simps)

lemma u8_small: "n < 0xfd \<Longrightarrow> unat (word_of_nat n :: u8) = n"
  by (simp add: unat_of_nat)

lemma u8_small_ne:
  assumes "n < 0xfd"
  shows "(word_of_nat n :: u8) \<noteq> 0xff" "(word_of_nat n :: u8) \<noteq> 0xfe"
    "(word_of_nat n :: u8) \<noteq> 0xfd"
proof -
  have u: "unat (word_of_nat n :: u8) = n"
    using assms by (rule u8_small)
  show "(word_of_nat n :: u8) \<noteq> 0xff"
  proof
    assume "(word_of_nat n :: u8) = 0xff"
    then have "unat (word_of_nat n :: u8) = unat (0xff :: u8)" by simp
    with u assms show False by simp
  qed
  show "(word_of_nat n :: u8) \<noteq> 0xfe"
  proof
    assume "(word_of_nat n :: u8) = 0xfe"
    then have "unat (word_of_nat n :: u8) = unat (0xfe :: u8)" by simp
    with u assms show False by simp
  qed
  show "(word_of_nat n :: u8) \<noteq> 0xfd"
  proof
    assume "(word_of_nat n :: u8) = 0xfd"
    then have "unat (word_of_nat n :: u8) = unat (0xfd :: u8)" by simp
    with u assms show False by simp
  qed
qed

text \<open>What the writer emits for a length, the reader reads back.\<close>

lemma readVarint_writeVarint:
  assumes "n < 2 ^ 53"
  shows "readVarint (writeVarint n @ r) = Inr (n, r)"
proof -
  consider "n < 0xfd" | "0xfd \<le> n" "n \<le> 0xffff" | "0xffff < n" "n \<le> 0xffffffff"
    | "0xffffffff < n"
    by linarith
  then show ?thesis
  proof cases
    case 1
    then show ?thesis
      using u8_small_ne [OF 1]
      by (simp add: readVarint_def writeVarint_def u8_small del: le_bytes_numeral)
  next
    case 2
    then show ?thesis
      by (simp add: readVarint_def writeVarint_def length_le_bytes le_nat_le_bytes
          del: le_bytes_numeral)
  next
    case 3
    then show ?thesis
      by (simp add: readVarint_def writeVarint_def length_le_bytes le_nat_le_bytes
          del: le_bytes_numeral)
  next
    case 4
    then show ?thesis
      using assms
      by (simp add: readVarint_def writeVarint_def length_le_bytes le_nat_le_bytes
          del: le_bytes_numeral)
  qed
qed

lemma readVarBytes_writeVarBytes:
  "length v < 2 ^ 53 \<Longrightarrow> readVarBytes (writeVarBytes v @ r) = Inr (v, r)"
  by (simp add: readVarBytes_def writeVarBytes_def readVarint_writeVarint readBytes_def)

lemma length_writeVarint: "length (writeVarint n) = sizeVarint n"
  by (simp add: writeVarint_def sizeVarint_def length_le_bytes del: le_bytes_numeral)

lemma readU32_writeU32: "readU32 (writeU32 w @ r) = Inr (w, r)"
proof -
  have "unat w < 256 ^ 4"
    using unsigned_less [of w] by simp
  then have "le_nat (le_bytes 4 (unat w)) = unat w"
    by (simp only: le_nat_le_bytes mod_less)
  then show ?thesis
    by (simp add: readU32_def writeU32_def length_le_bytes del: le_bytes_numeral)
qed

lemma readU32BE_writeU32BE: "readU32BE (writeU32BE w @ r) = Inr (w, r)"
proof -
  have "unat w < 256 ^ 4"
    using unsigned_less [of w] by simp
  then have "le_nat (le_bytes 4 (unat w)) = unat w"
    by (simp only: le_nat_le_bytes mod_less)
  then show ?thesis
    by (simp add: readU32BE_def writeU32BE_def length_le_bytes del: le_bytes_numeral)
qed

section \<open>One round of the read loops on a written record\<close>

lemma writeVarint_nonempty: "writeVarint n \<noteq> []"
  by (simp add: writeVarint_def)

lemma writeVarBytes_nonempty: "writeVarBytes v \<noteq> []"
  by (simp add: writeVarBytes_def writeVarint_nonempty)

lemma PSBTInput_read_separator: "PSBTInput_read env this (0 # br) = Inr (this, br)"
  by (simp add: PSBTInput_read.simps readVarBytes_def readVarint_def readBytes_def)

lemma PSBTInput_read_record:
  assumes "key \<noteq> []" "length key < 2 ^ 53"
  shows "PSBTInput_read env this (writeVarBytes key @ br) =
     (case PSBTInput_read_field env this key br of
        Inl e \<Rightarrow> Inl e
      | Inr (this', br2) \<Rightarrow> PSBTInput_read env this' br2)"
  using assms
  by (subst PSBTInput_read.simps)
    (simp add: readVarBytes_writeVarBytes writeVarBytes_nonempty)

lemma PSBT_read_global_separator: "PSBT_read_global env this (0 # br) = Inr (this, br)"
  by (simp add: PSBT_read_global.simps readVarBytes_def readVarint_def readBytes_def)

lemma PSBT_read_global_record:
  assumes "key \<noteq> []" "length key < 2 ^ 53"
  shows "PSBT_read_global env this (writeVarBytes key @ br) =
     (case PSBT_read_field env this key br of
        Inl e \<Rightarrow> Inl e
      | Inr (this', br2) \<Rightarrow> PSBT_read_global env this' br2)"
  using assms
  by (subst PSBT_read_global.simps)
    (simp add: readVarBytes_writeVarBytes writeVarBytes_nonempty)

lemma PSBTInput_read_field_SIGHASH:
  assumes "hd key = SIGHASH" "length v < 2 ^ 53"
  shows "PSBTInput_read_field env this key (writeVarBytes v @ br) =
     (if hashType this \<noteq> 0 then Inl DuplicateKey
      else case bufio_readU32 v of
             Inl e \<Rightarrow> Inl e
           | Inr w \<Rightarrow> Inr (this\<lparr>hashType := w\<rparr>, br))"
  using assms
  by (simp add: PSBTInput_read_field_def common_defs readVarBytes_writeVarBytes)

section \<open>Sanity of an input\<close>

text \<open>
  C6. \<open>isSane()\<close> of a PSBTInput returns false exactly when a non-witness UTXO and a
  witness UTXO are both present, or a witness redeem script is present without a
  witness UTXO, or a finalized witness stack is present without a witness UTXO. The
  method only reads fields: it is a total function from the input to a boolean, with
  no new state and no error value.
\<close>

theorem PSBTInput_isSane_false_iff:
  "PSBTInput_isSane this = False \<longleftrightarrow>
     (tx this \<noteq> None \<and> output' this \<noteq> None)
   \<or> (redeemWitness this \<noteq> None \<and> output' this = None)
   \<or> (witnessStack this \<noteq> None \<and> output' this = None)"
  by (simp add: PSBTInput_isSane_def)

theorem PSBTInput_isSane_false_iff_witness:
  "PSBTInput_isSane (PSBTInput_new\<lparr>tx := Some sample_tx, output' := Some sample_output\<rparr>) = False
   \<and> PSBTInput_isSane (PSBTInput_new\<lparr>redeemWitness := Some [0x51]\<rparr>) = False
   \<and> PSBTInput_isSane (PSBTInput_new\<lparr>witnessStack := Some [[0x51]]\<rparr>) = False
   \<and> PSBTInput_isSane (PSBTInput_new\<lparr>output' := Some sample_output\<rparr>) = True"
  using PSBTInput_isSane_false_iff
    [of "PSBTInput_new\<lparr>tx := Some sample_tx, output' := Some sample_output\<rparr>"]
    PSBTInput_isSane_false_iff [of "PSBTInput_new\<lparr>redeemWitness := Some [0x51]\<rparr>"]
    PSBTInput_isSane_false_iff [of "PSBTInput_new\<lparr>witnessStack := Some [[0x51]]\<rparr>"]
    PSBTInput_isSane_false_iff [of "PSBTInput_new\<lparr>output' := Some sample_output\<rparr>"]
  by (simp add: PSBTInput_new_def)

section \<open>The sighash type and its unset value\<close>

text \<open>
  C9. In the input scope a SIGHASH record (a key whose first byte is 0x03) is refused
  as a duplicate exactly when the stored sighash type is not 0. Otherwise its value
  goes through \<open>bufio.readU32\<close>, which throws on a value of fewer than four bytes, and
  the number read becomes the stored sighash type. So on an input without a sighash
  type a record whose value decodes to 0 leaves the input as it was, as if the record
  had not been there, and a SIGHASH record that follows it in the same scope is
  accepted: the scope decodes, with the number of the second record as its sighash
  type. After a record whose value decodes to another number, a second SIGHASH record
  is refused as a duplicate.
\<close>

theorem SIGHASH_zero_is_unset:
  assumes "key \<noteq> []" "hd key = SIGHASH" "length key < 2 ^ 53" "length v < 2 ^ 53"
    and "key' \<noteq> []" "hd key' = SIGHASH" "length key' < 2 ^ 53" "length v' < 2 ^ 53"
  shows "PSBTInput_read env this (writeVarBytes key @ writeVarBytes v @ rest) =
           (if hashType this \<noteq> 0 then Inl DuplicateKey
            else case bufio_readU32 v of
                   Inl e \<Rightarrow> Inl e
                 | Inr w \<Rightarrow> PSBTInput_read env (this\<lparr>hashType := w\<rparr>) rest)
       \<and> (hashType this = 0 \<and> bufio_readU32 v = Inr 0 \<longrightarrow>
            PSBTInput_read env this (writeVarBytes key @ writeVarBytes v @ rest) =
            PSBTInput_read env this rest)
       \<and> (hashType this = 0 \<and> bufio_readU32 v = Inr 0 \<and> bufio_readU32 v' = Inr w' \<longrightarrow>
            PSBTInput_read env this
              (writeVarBytes key @ writeVarBytes v @ writeVarBytes key' @ writeVarBytes v'
               @ SEPARATOR # rest) =
            Inr (this\<lparr>hashType := w'\<rparr>, rest))
       \<and> (hashType this = 0 \<and> bufio_readU32 v = Inr w \<and> w \<noteq> 0 \<longrightarrow>
            PSBTInput_read env this
              (writeVarBytes key @ writeVarBytes v @ writeVarBytes key' @ writeVarBytes v' @ rest) =
            Inl DuplicateKey)"
proof -
  have step: "PSBTInput_read env that (writeVarBytes k @ writeVarBytes x @ br) =
      (if hashType that \<noteq> 0 then Inl DuplicateKey
       else case bufio_readU32 x of
              Inl e \<Rightarrow> Inl e
            | Inr w \<Rightarrow> PSBTInput_read env (that\<lparr>hashType := w\<rparr>) br)"
    if "k \<noteq> []" "hd k = SIGHASH" "length k < 2 ^ 53" "length x < 2 ^ 53" for that k x br
    using that by (simp add: PSBTInput_read_record PSBTInput_read_field_SIGHASH split: sum.splits)
  have same: "this\<lparr>hashType := 0\<rparr> = this" if "hashType this = 0"
    using that by simp
  have first: "PSBTInput_read env this (writeVarBytes key @ writeVarBytes v @ br) =
      PSBTInput_read env (this\<lparr>hashType := w\<rparr>) br"
    if "hashType this = 0" "bufio_readU32 v = Inr w" for w br
    using that by (simp add: step [OF assms(1-4)])
  have second: "PSBTInput_read env (this\<lparr>hashType := w\<rparr>) (writeVarBytes key' @ writeVarBytes v' @ br) =
      (if w \<noteq> 0 then Inl DuplicateKey
       else case bufio_readU32 v' of
              Inl e \<Rightarrow> Inl e
            | Inr w' \<Rightarrow> PSBTInput_read env (this\<lparr>hashType := w'\<rparr>) br)" for w br
    by (simp add: step [OF assms(5-8)] split: sum.splits)
  have c1: "PSBTInput_read env this (writeVarBytes key @ writeVarBytes v @ rest) =
           (if hashType this \<noteq> 0 then Inl DuplicateKey
            else case bufio_readU32 v of
                   Inl e \<Rightarrow> Inl e
                 | Inr w \<Rightarrow> PSBTInput_read env (this\<lparr>hashType := w\<rparr>) rest)"
    by (rule step [OF assms(1-4)])
  have c2: "PSBTInput_read env this (writeVarBytes key @ writeVarBytes v @ rest) =
            PSBTInput_read env this rest"
    if "hashType this = 0" "bufio_readU32 v = Inr 0"
    using first [OF that] same [OF that(1)] by simp
  have c3: "PSBTInput_read env this
              (writeVarBytes key @ writeVarBytes v @ writeVarBytes key' @ writeVarBytes v'
               @ SEPARATOR # rest) =
            Inr (this\<lparr>hashType := w'\<rparr>, rest)"
    if "hashType this = 0" "bufio_readU32 v = Inr 0" "bufio_readU32 v' = Inr w'"
    using first [OF that(1,2)] second [of 0] that(3)
    by (simp add: SEPARATOR_def PSBTInput_read_separator)
  have c4: "PSBTInput_read env this
              (writeVarBytes key @ writeVarBytes v @ writeVarBytes key' @ writeVarBytes v' @ rest) =
            Inl DuplicateKey"
    if "hashType this = 0" "bufio_readU32 v = Inr w" "w \<noteq> 0"
    using first [OF that(1,2)] second [of w] that(3) by simp
  show ?thesis
    using c1 c2 c3 c4 by blast
qed

theorem SIGHASH_zero_is_unset_witness:
  "[SIGHASH] \<noteq> [] \<and> hd [SIGHASH] = SIGHASH \<and> hashType PSBTInput_new = 0
   \<and> bufio_readU32 [0, 0, 0, 0] = Inr 0 \<and> bufio_readU32 [1, 0, 0, 0] = Inr 1
   \<and> bufio_readU32 [1, 0] = Inl OutOfBounds
   \<and> PSBTInput_read sample_env PSBTInput_new
        ([1, 3, 4, 0, 0, 0, 0] @ [1, 3, 4, 1, 0, 0, 0] @ [0]) =
      Inr (PSBTInput_new\<lparr>hashType := 1\<rparr>, [])
   \<and> PSBTInput_read sample_env PSBTInput_new
        ([1, 3, 4, 1, 0, 0, 0] @ [1, 3, 4, 0, 0, 0, 0] @ [0]) = Inl DuplicateKey
   \<and> PSBTInput_read sample_env PSBTInput_new ([1, 3, 2, 1, 0] @ [0]) = Inl OutOfBounds"
  using SIGHASH_zero_is_unset
    [of "[SIGHASH]" "[0, 0, 0, 0]" "[SIGHASH]" "[1, 0, 0, 0]" sample_env PSBTInput_new "[]" 1 1]
    SIGHASH_zero_is_unset
    [of "[SIGHASH]" "[1, 0, 0, 0]" "[SIGHASH]" "[0, 0, 0, 0]" sample_env PSBTInput_new "[0]" 0 1]
    SIGHASH_zero_is_unset
    [of "[SIGHASH]" "[1, 0]" "[SIGHASH]" "[]" sample_env PSBTInput_new "[0]" 0 0]
  by (simp add: writeVarBytes_def writeVarint_def bufio_readU32_def SIGHASH_def SEPARATOR_def
      PSBTInput_new_def)

section \<open>The embedded transaction is unsigned\<close>

lemma isTransactionUnsigned_iff:
  "isTransactionUnsigned m \<longleftrightarrow>
     (\<forall>input \<in> set (tx_inputs m). script_raw input = [] \<and> witness_items input = [])"
  by (simp add: isTransactionUnsigned_def list_all_iff)

lemma PSBT_read_field_UNSIGNED_TX:
  assumes "hd key = UNSIGNED_TX" "length rawTX < 2 ^ 53" "TX_fromRaw env rawTX = Inr m"
  shows "PSBT_read_field env this key (writeVarBytes rawTX @ br) =
     (if mtx this \<noteq> None then Inl DuplicateKey
      else if \<not> isTransactionUnsigned m then Inl NotUnsigned
      else Inr (this\<lparr>mtx := Some m\<rparr>, br))"
  using assms
  by (simp add: PSBT_read_field_def readVarBytes_writeVarBytes)

text \<open>What the loops keep: the transaction stays unsigned, and the input loop adds one record per round.\<close>

lemma PSBT_read_global_invariant:
  assumes "PSBT_read_global env this br = Inr (this', br')"
    and "P this"
    and step: "\<And>that key br1 that' br2.
      P that \<Longrightarrow> PSBT_read_field env that key br1 = Inr (that', br2) \<Longrightarrow> P that'"
  shows "P this'"
  using assms
proof (induction env this br rule: PSBT_read_global.induct)
  case (1 env this br)
  note inv = "1.prems"(3)
  show ?case
  proof (cases "length br = 0")
    case True
    with "1.prems" show ?thesis
      by (simp add: PSBT_read_global.simps)
  next
    case False
    with "1.prems"(1) obtain key br1 where k: "readVarBytes br = Inr (key, br1)"
      by (subst (asm) PSBT_read_global.simps) (auto split: sum.splits)
    show ?thesis
    proof (cases "length key = 0")
      case True
      with "1.prems" False k show ?thesis
        by (subst (asm) PSBT_read_global.simps) simp
    next
      case nonempty: False
      with "1.prems"(1) False k obtain that br2 where
        f: "PSBT_read_field env this key br1 = Inr (that, br2)"
        and r: "PSBT_read_global env that br2 = Inr (this', br')"
        by (subst (asm) PSBT_read_global.simps) (auto split: sum.splits)
      from "1.prems"(2) f have "P that"
        by (rule inv)
      then show ?thesis
        using "1.IH" [OF False k refl nonempty f refl r] inv by blast
    qed
  qed
qed

lemma PSBT_read_global_keeps_unsigned:
  assumes "PSBT_read_global env this br = Inr (this', br')"
    and "\<forall>m. mtx this = Some m \<longrightarrow> isTransactionUnsigned m"
  shows "\<forall>m. mtx this' = Some m \<longrightarrow> isTransactionUnsigned m"
  using assms(1)
proof (rule PSBT_read_global_invariant)
  show "\<forall>m. mtx this = Some m \<longrightarrow> isTransactionUnsigned m"
    by (rule assms(2))
next
  fix that key br1 that' br2
  assume "\<forall>m. mtx that = Some m \<longrightarrow> isTransactionUnsigned m"
    and "PSBT_read_field env that key br1 = Inr (that', br2)"
  then show "\<forall>m. mtx that' = Some m \<longrightarrow> isTransactionUnsigned m"
    unfolding PSBT_read_field_def by (auto split: if_splits sum.splits)
qed

lemma PSBT_read_global_keeps_records:
  assumes "PSBT_read_global env this br = Inr (this', br')"
  shows "inputs this' = inputs this \<and> outputs this' = outputs this"
  using assms
proof (rule PSBT_read_global_invariant)
  show "inputs this = inputs this \<and> outputs this = outputs this"
    by simp
next
  fix that key br1 that' br2
  assume "inputs that = inputs this \<and> outputs that = outputs this"
    and "PSBT_read_field env that key br1 = Inr (that', br2)"
  then show "inputs that' = inputs this \<and> outputs that' = outputs this"
    unfolding PSBT_read_field_def by (auto split: if_splits sum.splits)
qed

lemma PSBT_read_inputs_result:
  assumes "PSBT_read_inputs env n this br = Inr (this', br')"
  shows "mtx this' = mtx this \<and> outputs this' = outputs this \<and> unknown this' = unknown this
     \<and> length (inputs this') = length (inputs this) + n"
  using assms
  by (induction n arbitrary: this br) (auto split: sum.splits)

text \<open>What an accepted PSBT looks like.\<close>

lemma PSBT_read_accepted:
  assumes "PSBT_read env this br = Inr (this', br')"
    and "\<forall>m. mtx this = Some m \<longrightarrow> isTransactionUnsigned m"
  shows "\<exists>m. mtx this' = Some m \<and> isTransactionUnsigned m
     \<and> length (inputs this') = length (inputs this) + length (tx_inputs m)
     \<and> outputs this' = outputs this"
proof -
  from assms(1) obtain br2 g br3 m where
    g: "PSBT_read_global env this br2 = Inr (g, br3)" and m: "mtx g = Some m"
    and i: "PSBT_read_inputs env (length (tx_inputs m)) g br3 = Inr (this', br')"
    unfolding PSBT_read_def by (auto split: sum.splits if_splits option.splits)
  from g assms(2) m have "isTransactionUnsigned m"
    using PSBT_read_global_keeps_unsigned by blast
  moreover from g have "inputs g = inputs this" "outputs g = outputs this"
    using PSBT_read_global_keeps_records by blast+
  ultimately show ?thesis
    using PSBT_read_inputs_result [OF i] m by simp
qed

text \<open>
  C5. When the global scope reaches the unsigned-transaction record (a key whose first
  byte is 0x00, no transaction stored yet) and the transaction parsed from its value
  has a non-empty script or a non-empty witness on one of its inputs, decoding fails
  with the 'Unsigned tx does not have empty scriptSigs and scriptWitnesses.' assertion
  (the spec's InvalidFieldCombination), whatever bytes follow the record: the check
  comes right after the parse. A transaction whose inputs all have an empty script and
  an empty witness passes, and the loop goes on with the transaction stored. Every
  PSBT that decoding accepts holds a transaction of the second kind.
\<close>

theorem unsigned_tx_checked_after_parse:
  assumes "key \<noteq> []" "hd key = UNSIGNED_TX" "length key < 2 ^ 53" "length rawTX < 2 ^ 53"
    and "mtx this = None" "TX_fromRaw env rawTX = Inr m"
  shows "PSBT_read_global env this (writeVarBytes key @ writeVarBytes rawTX @ rest) =
           (if \<exists>input \<in> set (tx_inputs m). script_raw input \<noteq> [] \<or> witness_items input \<noteq> []
            then Inl NotUnsigned
            else PSBT_read_global env (this\<lparr>mtx := Some m\<rparr>) rest)
       \<and> ((\<exists>input \<in> set (tx_inputs m). script_raw input \<noteq> [] \<or> witness_items input \<noteq> []) \<longrightarrow>
            PSBT_read env this
              (writeU32BE MAGIC @ writeU8 MAGIC_SEP @ writeVarBytes key @ writeVarBytes rawTX @ rest) =
            Inl NotUnsigned)
       \<and> (\<forall>p r. PSBT_read env PSBT_new br = Inr (p, r) \<longrightarrow>
            (\<exists>m'. mtx p = Some m'
               \<and> (\<forall>input \<in> set (tx_inputs m'). script_raw input = [] \<and> witness_items input = [])))"
proof (intro conjI)
  show loop: "PSBT_read_global env this (writeVarBytes key @ writeVarBytes rawTX @ rest) =
           (if \<exists>input \<in> set (tx_inputs m). script_raw input \<noteq> [] \<or> witness_items input \<noteq> []
            then Inl NotUnsigned
            else PSBT_read_global env (this\<lparr>mtx := Some m\<rparr>) rest)"
    using assms
    by (simp add: PSBT_read_global_record PSBT_read_field_UNSIGNED_TX isTransactionUnsigned_iff)
  show "(\<exists>input \<in> set (tx_inputs m). script_raw input \<noteq> [] \<or> witness_items input \<noteq> []) \<longrightarrow>
            PSBT_read env this
              (writeU32BE MAGIC @ writeU8 MAGIC_SEP @ writeVarBytes key @ writeVarBytes rawTX @ rest) =
            Inl NotUnsigned"
    by (simp add: PSBT_read_def readU32BE_writeU32BE readU8_def writeU8_def loop)
next
  show "\<forall>p r. PSBT_read env PSBT_new br = Inr (p, r) \<longrightarrow>
            (\<exists>m'. mtx p = Some m'
               \<and> (\<forall>input \<in> set (tx_inputs m'). script_raw input = [] \<and> witness_items input = []))"
  proof (intro allI impI)
    fix p r
    assume "PSBT_read env PSBT_new br = Inr (p, r)"
    then obtain m' where "mtx p = Some m'" "isTransactionUnsigned m'"
      using PSBT_read_accepted [of env PSBT_new br p r] by (auto simp: PSBT_new_def)
    then show "\<exists>m'. mtx p = Some m'
               \<and> (\<forall>input \<in> set (tx_inputs m'). script_raw input = [] \<and> witness_items input = [])"
      by (simp add: isTransactionUnsigned_iff)
  qed
qed

theorem unsigned_tx_checked_after_parse_witness:
  "[UNSIGNED_TX] \<noteq> [] \<and> hd [UNSIGNED_TX] = UNSIGNED_TX \<and> mtx PSBT_new = None
   \<and> TX_fromRaw sample_env signed_tx_raw = Inr signed_tx
   \<and> TX_fromRaw sample_env sample_tx_raw = Inr sample_tx
   \<and> PSBT_read_global sample_env PSBT_new ([1, 0, 62] @ signed_tx_raw @ [0xff, 0xff]) =
       Inl NotUnsigned
   \<and> PSBT_read sample_env PSBT_new
       ([0x70, 0x73, 0x62, 0x74, 0xff] @ [1, 0, 62] @ signed_tx_raw @ [0xff, 0xff]) =
       Inl NotUnsigned
   \<and> PSBT_read_global sample_env PSBT_new ([1, 0, 61] @ sample_tx_raw @ [0]) =
       Inr (PSBT_new\<lparr>mtx := Some sample_tx\<rparr>, [])"
  using unsigned_tx_checked_after_parse
    [where key = "[UNSIGNED_TX]" and rawTX = signed_tx_raw and this = PSBT_new
       and env = sample_env and m = signed_tx and rest = "[0xff, 0xff]" and br = "[]"]
    unsigned_tx_checked_after_parse
    [where key = "[UNSIGNED_TX]" and rawTX = sample_tx_raw and this = PSBT_new
       and env = sample_env and m = sample_tx and rest = "[0]" and br = "[]"]
  by (simp add: writeVarBytes_def writeVarint_def writeU32BE_def writeU8_def MAGIC_def
      MAGIC_SEP_def UNSIGNED_TX_def PSBT_new_def sample_env_def sample_defs
      PSBT_read_global_separator)

section \<open>Paths round-trip\<close>

lemma digit_cases:
  "d < 10 \<Longrightarrow> d = 0 \<or> d = 1 \<or> d = 2 \<or> d = 3 \<or> d = 4 \<or> d = 5 \<or> d = 6 \<or> d = 7 \<or> d = 8
     \<or> d = (9::nat)"
  by arith

lemma is_digit_digit_char: "d < 10 \<Longrightarrow> is_digit (digit_char d)"
  by (drule digit_cases) (auto simp: is_digit_def digit_char_def)

lemma of_char_digit_char: "d < 10 \<Longrightarrow> (of_char (digit_char d) :: nat) = 48 + d"
  by (drule digit_cases) (auto simp: digit_char_def)

lemma to_decimal_digits: "list_all is_digit (to_decimal n)"
proof (induction n rule: to_decimal.induct)
  case (1 n)
  then show ?case
    by (subst to_decimal.simps) (simp add: is_digit_digit_char)
qed

lemma to_decimal_nonempty: "to_decimal n \<noteq> []"
  by (subst to_decimal.simps) simp

lemma to_decimal_value:
  "foldl (\<lambda>acc c. 10 * acc + (of_char c - 48)) 0 (to_decimal n) = n"
proof (induction n rule: to_decimal.induct)
  case (1 n)
  show ?case
  proof (cases "n < 10")
    case True
    then show ?thesis
      by (subst to_decimal.simps) (simp add: of_char_digit_char)
  next
    case False
    then show ?thesis
      using 1 by (subst to_decimal.simps) (simp add: of_char_digit_char)
  qed
qed

lemma parse_decimal_to_decimal: "parse_decimal (to_decimal n) = Some n"
  by (simp add: parse_decimal_def to_decimal_digits to_decimal_nonempty to_decimal_value)

lemma is_digit_not_quote: "is_digit c \<Longrightarrow> c \<noteq> CHR 0x27"
  by (auto simp: is_digit_def)

lemma is_digit_not_slash: "is_digit c \<Longrightarrow> c \<noteq> CHR ''/''"
  by (auto simp: is_digit_def)

lemma last_to_decimal: "last (to_decimal n) \<noteq> CHR 0x27"
proof -
  have "last (to_decimal n) \<in> set (to_decimal n)"
    by (simp add: to_decimal_nonempty)
  then have "is_digit (last (to_decimal n))"
    using to_decimal_digits [of n] by (simp add: list_all_iff)
  then show ?thesis
    by (rule is_digit_not_quote)
qed

lemma parse_segment_path_segment: "parse_segment (path_segment i) = Inr i"
proof (cases "HARDENED \<le> unat i")
  case True
  have "unat i < 2 ^ 32"
    using unsigned_less [of i] by simp
  then have "unat i - HARDENED < HARDENED"
    using True by (simp add: HARDENED_def)
  moreover have "(word_of_nat (unat i - HARDENED + HARDENED) :: u32) = i"
    using True by simp
  ultimately show ?thesis
    using True by (simp add: parse_segment_def path_segment_def parse_decimal_to_decimal)
next
  case False
  have "unat i < 2 ^ 32"
    using unsigned_less [of i] by simp
  then show ?thesis
    using False
    by (simp add: parse_segment_def path_segment_def parse_decimal_to_decimal
        to_decimal_nonempty last_to_decimal)
qed

lemma path_segment_no_slash: "CHR ''/'' \<notin> set (path_segment i)"
  using to_decimal_digits [of "unat i"] to_decimal_digits [of "unat i - HARDENED"]
  by (auto simp: path_segment_def list_all_iff dest: is_digit_not_slash)

lemma split_slash_no_slash: "CHR ''/'' \<notin> set s \<Longrightarrow> split_slash s = [s]"
  by (induction s) auto

lemma split_slash_append:
  "CHR ''/'' \<notin> set s \<Longrightarrow> split_slash (s @ CHR ''/'' # t) = s # split_slash t"
  by (induction s) auto

lemma split_slash_segments:
  assumes "CHR ''/'' \<notin> set s"
  shows "split_slash (s @ concat (map (\<lambda>i. CHR ''/'' # path_segment i) xs)) =
     s # map path_segment xs"
  using assms
proof (induction xs arbitrary: s)
  case Nil
  then show ?case
    by (simp add: split_slash_no_slash)
next
  case (Cons x xs)
  have "split_slash (s @ CHR ''/'' # (path_segment x @ concat (map (\<lambda>i. CHR ''/'' # path_segment i) xs)))
      = s # split_slash (path_segment x @ concat (map (\<lambda>i. CHR ''/'' # path_segment i) xs))"
    using Cons.prems by (rule split_slash_append)
  also have "\<dots> = s # path_segment x # map path_segment xs"
    using Cons.IH [OF path_segment_no_slash] by simp
  finally show ?case
    by simp
qed

lemma parse_segments_path_segments: "parse_segments (map path_segment xs) = Inr xs"
  by (induction xs) (simp_all add: parse_segment_path_segment)

lemma HDCommon_parsePath_toPath: "HDCommon_parsePath (HDCommon_toPath xs) = Inr xs"
proof -
  have "split_slash (HDCommon_toPath xs) = ''m'' # map path_segment xs"
    unfolding HDCommon_toPath_def by (rule split_slash_segments) simp
  then show ?thesis
    by (simp add: HDCommon_parsePath_def parse_segments_path_segments)
qed

lemma Path_read_indexes_written:
  "Path_read_indexes this (concat (map writeU32 xs)) =
     Inr (this\<lparr>indexes := indexes this @ xs\<rparr>, [])"
proof (induction xs arbitrary: this)
  case Nil
  show ?case
    by (simp add: Path_read_indexes.simps)
next
  case (Cons x xs)
  have "writeU32 x \<noteq> []"
    by (simp add: writeU32_def)
  then show ?case
    using Cons [of "this\<lparr>indexes := indexes this @ [x]\<rparr>"]
    by (subst Path_read_indexes.simps) (simp add: readU32_writeU32)
qed

lemma Path_fromRaw_toRaw: "Path_fromRaw (Path_toRaw p) = Inr p"
  by (simp add: Path_fromRaw_def Path_toRaw_def Path_read_def Path_write_def
      readU32BE_writeU32BE Path_read_indexes_written Path_new_def)

text \<open>
  C7. For every uint32 fingerprint \<open>f\<close> and every sequence \<open>xs\<close> of uint32 indexes,
  decoding the binary encoding of the path recovers the same path, which re-encodes
  to the same bytes; and parsing the string form of the path gives back exactly the
  indexes \<open>xs\<close> (whatever instance and fingerprint argument \<open>fromString\<close> is given). The
  binary half is \<open>Path.write\<close> and \<open>Path.read\<close> of the source; the string half rests on
  the path syntax modelled from the spec.
\<close>

theorem Path_round_trips:
  "Path_fromRaw (Path_toRaw \<lparr>masterFingerPrint = f, indexes = xs\<rparr>) =
     Inr \<lparr>masterFingerPrint = f, indexes = xs\<rparr>
   \<and> map_sum id Path_toRaw (Path_fromRaw (Path_toRaw \<lparr>masterFingerPrint = f, indexes = xs\<rparr>)) =
     Inr (Path_toRaw \<lparr>masterFingerPrint = f, indexes = xs\<rparr>)
   \<and> map_sum id indexes
       (Path_fromString this (Path_toString \<lparr>masterFingerPrint = f, indexes = xs\<rparr>) fingerPrint) =
     Inr xs"
  by (simp add: Path_fromRaw_toRaw Path_fromString_def Path_fromPath_def Path_toString_def
      Path_toPath_def HDCommon_parsePath_toPath)

theorem Path_round_trips_witness:
  "Path_toRaw \<lparr>masterFingerPrint = 0x01020304, indexes = [0, 0x8000002c]\<rparr> =
     [1, 2, 3, 4, 0, 0, 0, 0, 0x2c, 0, 0, 0x80]
   \<and> Path_fromRaw [1, 2, 3, 4, 0, 0, 0, 0, 0x2c, 0, 0, 0x80] =
     Inr \<lparr>masterFingerPrint = 0x01020304, indexes = [0, 0x8000002c]\<rparr>
   \<and> Path_toString \<lparr>masterFingerPrint = 0x01020304, indexes = [0, 0x8000002c]\<rparr> = ''m/0/44'' @ [CHR 0x27]
   \<and> map_sum id indexes (Path_fromString Path_new (''m/0/44'' @ [CHR 0x27]) None) = Inr [0, 0x8000002c]"
proof -
  have raw: "Path_toRaw \<lparr>masterFingerPrint = 0x01020304, indexes = [0, 0x8000002c]\<rparr> =
     [1, 2, 3, 4, 0, 0, 0, 0, 0x2c, 0, 0, 0x80]"
    by (simp add: Path_toRaw_def Path_write_def writeU32BE_def writeU32_def)
  have str: "Path_toString \<lparr>masterFingerPrint = 0x01020304, indexes = [0, 0x8000002c]\<rparr> = ''m/0/44'' @ [CHR 0x27]"
    by (simp add: Path_toString_def Path_toPath_def HDCommon_toPath_def path_segment_def
        HARDENED_def to_decimal.simps digit_char_def)
  show ?thesis
    using Path_round_trips [of "0x01020304" "[0, 0x8000002c]" Path_new None]
    by (simp add: raw str)
qed

section \<open>The size of a PSBT\<close>

lemma magic_bytes: "writeU32BE MAGIC @ writeU8 MAGIC_SEP = [0x70, 0x73, 0x62, 0x74, 0xff]"
  by (simp add: writeU32BE_def writeU8_def MAGIC_def MAGIC_SEP_def)

lemma PSBT_write_sample:
  "PSBT_write sample_env psbt_with_unknown [] = 
    ([0x70, 0x73, 0x62, 0x74, 0xff, 0x01, 0x00, 61] @ sample_tx_raw @ [0x02, 0x0f, 0x01, 0x01, 0xaa, 0x00, 0x00], None)"
  by (simp add: psbt_with_unknown_def PSBT_write_def Let_def magic_bytes PSBTInput_write_def eval_defs BufferMap_values_def)

text \<open>
  C10 does not hold on the code: for the PSBT decoded from the bytes below, with a
  transaction and one unknown global field, \<open>getSize()\<close> is 75 while \<open>write\<close> produces
  76 bytes. \<open>getSize\<close> counts half the length of each unknown key, \<open>write\<close> writes the
  whole key.
\<close>

theorem PSBT_getSize_unknown_mismatch:
  "PSBT_read sample_env PSBT_new
     ([0x70, 0x73, 0x62, 0x74, 0xff, 0x01, 0x00, 61] @ sample_tx_raw
        @ [0x02, 0x0f, 0x01, 0x01, 0xaa, 0x00, 0x00]) = Inr (psbt_with_unknown, [])
   \<and> PSBT_getSize sample_env psbt_with_unknown = Inr 75
   \<and> snd (PSBT_write sample_env psbt_with_unknown []) = None
   \<and> length (fst (PSBT_write sample_env psbt_with_unknown [])) = 76"
  by (simp add: PSBT_write_sample)
    (simp add: psbt_with_unknown_def PSBT_getSize_def PSBTInput_getSize_def sizeVarint_def
      BufferMap_values_def BufferMap_has_def eval_defs)

lemma length_writeVarBytes: "length (writeVarBytes v) = sizeVarint (length v) + length v"
  by (simp add: writeVarBytes_def length_writeVarint)

lemma length_writeU8: "length (writeU8 b) = 1"
  by (simp add: writeU8_def)

lemma length_writeU32: "length (writeU32 w) = 4"
  by (simp add: writeU32_def length_le_bytes del: le_bytes_numeral)

lemma length_concat_map: "length (concat (map f xs)) = sum_list (map (\<lambda>x. length (f x)) xs)"
  by (induction xs) simp_all

lemma PSBTInput_getSize_write:
  assumes "\<And>t. tx this = Some t \<Longrightarrow> TX_getSize env t = length (TX_toRaw env t)"
    and "\<And>out. output' this = Some out \<Longrightarrow> Output_getSize env out = length (Output_toRaw env out)"
  shows "length (PSBTInput_write env this) = PSBTInput_getSize env this"
proof -
  have utxo: "length (case tx this of
        Some t \<Rightarrow> writeVarint 1 @ writeU8 NON_WITNESS_UTXO @ writeVarBytes (TX_toRaw env t)
      | None \<Rightarrow>
          (case output' this of
             Some out \<Rightarrow>
               writeVarint 1 @ writeU8 WITNESS_UTXO @ writeVarBytes (Output_toRaw env out)
           | None \<Rightarrow> []))
     = (case tx this of
        Some t \<Rightarrow> 2 + (sizeVarint (TX_getSize env t) + TX_getSize env t)
      | None \<Rightarrow>
          (case output' this of
             Some out \<Rightarrow> 2 + (sizeVarint (Output_getSize env out) + Output_getSize env out)
           | None \<Rightarrow> 0))"
    using assms
    by (auto simp: length_writeVarBytes length_writeVarint sizeVarint_def writeU8_def
        split: option.splits)
  have hash: "length (writeU32 (hashType this)) = 4"
    by (rule length_writeU32)
  have sigs: "length (concat (map (\<lambda>sigpair.
              writeVarint (length (fst sigpair) + 1) @ writeU8 PARTIAL_SIG @ fst sigpair
              @ writeVarBytes (snd sigpair)) ss))
      = sum_list (map (\<lambda>sigpair.
              sizeVarint (1 + length (fst sigpair)) + (1 + length (fst sigpair))
              + (sizeVarint (length (snd sigpair)) + length (snd sigpair))) ss)" for ss :: "(bytes \<times> bytes) list"
    by (induction ss) (simp_all add: length_writeVarBytes length_writeVarint writeU8_def add.commute)
  show ?thesis
  proof (cases "script this = None \<and> witnessStack this = None")
    case True
    then have open_input: "script this = None" "witnessStack this = None"
      by simp_all
    show ?thesis
      unfolding PSBTInput_write_def PSBTInput_getSize_def
      by (simp only: open_input simp_thms if_True length_append utxo sigs)
        (simp add: hash length_writeVarint sizeVarint_def writeU8_def)
  next
    case False
    then show ?thesis
      unfolding PSBTInput_write_def PSBTInput_getSize_def
      by (simp only: if_False length_append utxo) simp
  qed
qed

text \<open>
  Without unknown global fields the two agree, provided the collaborators' \<open>getSize\<close>
  is the length of what they write.
\<close>

lemma PSBT_getSize_write_no_unknown:
  assumes "mtx this = Some m" "unknown this = []"
    and "TX_getSize env m = length (TX_toRaw env m)"
    and "\<And>input t. input \<in> set (inputs this) \<Longrightarrow> tx input = Some t \<Longrightarrow>
           TX_getSize env t = length (TX_toRaw env t)"
    and "\<And>input out. input \<in> set (inputs this) \<Longrightarrow> output' input = Some out \<Longrightarrow>
           Output_getSize env out = length (Output_toRaw env out)"
  shows "PSBT_getSize env this = Inr (length (fst (PSBT_write env this [])))"
proof -
  have "sum_list (map (\<lambda>input. length (PSBTInput_write env input @ writeU8 SEPARATOR)) ins)
      = sum_list (map (\<lambda>input. PSBTInput_getSize env input + 1) ins)"
    if "set ins \<subseteq> set (inputs this)" for ins
    using that
  proof (induction ins)
    case Nil
    show ?case by simp
  next
    case (Cons a ins)
    then have "length (PSBTInput_write env a) = PSBTInput_getSize env a"
      using assms(4,5) by (intro PSBTInput_getSize_write) auto
    with Cons show ?case
      by (simp add: writeU8_def)
  qed
  then have ins: "length (concat (map (\<lambda>input. PSBTInput_write env input @ writeU8 SEPARATOR)
                 (inputs this)))
      = sum_list (map (\<lambda>input. PSBTInput_getSize env input + 1) (inputs this))"
    by (simp add: length_concat_map)
  show ?thesis
    using assms(1-3) unfolding PSBT_getSize_def PSBT_write_def Let_def
    by (simp add: ins length_writeVarint sizeVarint_def length_writeU8 writeU32BE_def
        length_le_bytes del: le_bytes_numeral)
qed

section \<open>Encoding to bytes\<close>

text \<open>
  Without unknown global fields \<open>toRaw()\<close> fails exactly when the transaction is
  missing, in \<open>getSize\<close>, and otherwise returns the bytes that \<open>write\<close> produces.
\<close>

lemma PSBT_toRaw_without_tx: "mtx this = None \<Longrightarrow> PSBT_toRaw env this = Inl TypeError"
  by (simp add: PSBT_toRaw_def PSBT_getSize_def)

lemma PSBT_toRaw_no_unknown:
  assumes "mtx this = Some m" "unknown this = []"
    and "TX_getSize env m = length (TX_toRaw env m)"
    and "\<And>input t. input \<in> set (inputs this) \<Longrightarrow> tx input = Some t \<Longrightarrow>
           TX_getSize env t = length (TX_toRaw env t)"
    and "\<And>input out. input \<in> set (inputs this) \<Longrightarrow> output' input = Some out \<Longrightarrow>
           Output_getSize env out = length (Output_toRaw env out)"
  shows "PSBT_toRaw env this = Inr (fst (PSBT_write env this []))"
proof -
  obtain bw where bw: "PSBT_write env this [] = (bw, None)"
    using assms(1) by (simp add: PSBT_write_def Let_def)
  have "PSBT_getSize env this = Inr (length (fst (PSBT_write env this [])))"
    by (rule PSBT_getSize_write_no_unknown [OF assms])
  then have "PSBT_getSize env this = Inr (length bw)"
    by (simp only: bw fst_conv)
  then show ?thesis
    by (simp add: PSBT_toRaw_def bw)
qed

text \<open>
  C8 does not hold on the code. \<open>toRaw()\<close> of a PSBT without a transaction fails in
  \<open>getSize\<close>, before \<open>write\<close> is called, as the claim has it. But \<open>toRaw()\<close> of the PSBT
  decoded from the 76 bytes below fails too, although it has its transaction: a global
  field of unknown type makes \<open>getSize()\<close> return 75, \<open>write\<close> needs 76 bytes, and the
  writer of 75 bytes throws while \<open>write\<close> is running. On a writer that grows, \<open>write\<close>
  gives the 76 bytes back.
\<close>

theorem PSBT_toRaw_fails_with_unknown_field:
  "PSBT_toRaw sample_env PSBT_new = Inl TypeError
   \<and> PSBT_read sample_env PSBT_new
       ([0x70, 0x73, 0x62, 0x74, 0xff, 0x01, 0x00, 61] @ sample_tx_raw
          @ [0x02, 0x0f, 0x01, 0x01, 0xaa, 0x00, 0x00]) = Inr (psbt_with_unknown, [])
   \<and> mtx psbt_with_unknown = Some sample_tx
   \<and> PSBT_write sample_env psbt_with_unknown [] =
       ([0x70, 0x73, 0x62, 0x74, 0xff, 0x01, 0x00, 61] @ sample_tx_raw
          @ [0x02, 0x0f, 0x01, 0x01, 0xaa, 0x00, 0x00], None)
   \<and> PSBT_toRaw sample_env psbt_with_unknown = Inl OutOfBoundsWrite"
proof -
  have size: "PSBT_getSize sample_env psbt_with_unknown = Inr 75"
    by (simp add: psbt_with_unknown_def PSBT_getSize_def PSBTInput_getSize_def sizeVarint_def
        BufferMap_values_def eval_defs)
  have "PSBT_toRaw sample_env psbt_with_unknown = Inl OutOfBoundsWrite"
    by (simp add: PSBT_toRaw_def size PSBT_write_sample) (simp add: sample_tx_raw_def)
  moreover have "PSBT_toRaw sample_env PSBT_new = Inl TypeError"
    by (simp add: PSBT_toRaw_without_tx PSBT_new_def)
  moreover have "PSBT_read sample_env PSBT_new
       ([0x70, 0x73, 0x62, 0x74, 0xff, 0x01, 0x00, 61] @ sample_tx_raw
          @ [0x02, 0x0f, 0x01, 0x01, 0xaa, 0x00, 0x00]) = Inr (psbt_with_unknown, [])"
    by (simp add: psbt_with_unknown_def BufferMap_has_def eval_defs)
  moreover have "mtx psbt_with_unknown = Some sample_tx"
    by (simp add: psbt_with_unknown_def)
  ultimately show ?thesis
    using PSBT_write_sample by simp
qed

section \<open>Merging\<close>

text \<open>Whenever \<open>merge\<close> returns, this PSBT is what it was.\<close>

lemma merge_inputs_same: "merge_inputs ours theirs = Inr merged \<Longrightarrow> merged = ours"
  by (induction ours theirs arbitrary: merged rule: merge_inputs.induct)
    (auto simp: PSBTInput_merge_def split: sum.splits)

lemma merge_outputs_same: "merge_outputs ours theirs = Inr merged \<Longrightarrow> merged = ours"
  by (induction ours theirs rule: merge_outputs.induct) auto

lemma PSBT_merge_same:
  assumes "PSBT_merge this psbt = Inr merged"
  shows "merged = this"
proof -
  from assms obtain ins outs where
    "merge_inputs (inputs this) (inputs psbt) = Inr ins"
    "merge_outputs (outputs this) (outputs psbt) = Inr outs"
    "merged = this\<lparr>inputs := ins, outputs := outs\<rparr>"
    by (auto simp: PSBT_merge_def split: sum.splits)
  then have "merged = this\<lparr>inputs := inputs this, outputs := outputs this\<rparr>"
    using merge_inputs_same merge_outputs_same by blast
  then show ?thesis
    by simp
qed

text \<open>
  C2 does not hold on the code: after \<open>psbt_A.merge(psbt_B)\<close> the first input of
  \<open>psbt_A\<close> still holds the signature of \<open>pubkey_G\<close> only; the signature that only
  \<open>psbt_B\<close> has is not copied. \<open>PSBTInput.merge\<close> returns \<open>this\<close> unchanged.
\<close>

theorem PSBT_merge_keeps_one_signature:
  "hash_G \<noteq> hash_2G
   \<and> PSBT_merge psbt_A psbt_B = Inr psbt_A
   \<and> map fst (signatures (hd (inputs psbt_A))) = [hash_G]
   \<and> \<not> BufferMap_has (signatures (hd (inputs psbt_A))) hash_2G"
  by (simp add: psbt_A_def psbt_B_def PSBT_merge_def PSBTInput_merge_def BufferMap_has_def
      hash_G_def hash_2G_def)

section \<open>Duplicate fields\<close>

text \<open>
  The handlers that check their slot: a second non-witness UTXO, witness UTXO, redeem
  script, witness script, final script or final witness, a SIGHASH record after a
  non-zero sighash type, an unknown key seen before, and in the global scope a second
  transaction or a known unknown key, all fail with the 'Duplicate Key' assertion.
\<close>

lemma PSBTInput_read_field_duplicate:
  assumes "hd key = NON_WITNESS_UTXO \<and> tx this \<noteq> None
    \<or> hd key = WITNESS_UTXO \<and> output' this \<noteq> None
    \<or> hd key = SIGHASH \<and> hashType this \<noteq> 0
    \<or> hd key = REDEEMSCRIPT \<and> redeem this \<noteq> None
    \<or> hd key = WITNESSSCRIPT \<and> redeemWitness this \<noteq> None
    \<or> hd key = SCRIPTSIG \<and> script this \<noteq> None
    \<or> hd key = SCRIPTWITNESS \<and> witnessStack this \<noteq> None
    \<or> 8 < hd key \<and> BufferMap_has (input_unknown this) key"
  shows "PSBTInput_read_field env this key br = Inl DuplicateKey"
proof -
  have "hd key \<noteq> 0 \<and> hd key \<noteq> 1 \<and> hd key \<noteq> 2 \<and> hd key \<noteq> 3 \<and> hd key \<noteq> 4 \<and> hd key \<noteq> 5
      \<and> hd key \<noteq> 6 \<and> hd key \<noteq> 7 \<and> hd key \<noteq> 8" if "8 < hd key"
    using that by auto
  then show ?thesis
    using assms unfolding PSBTInput_read_field_def common_defs
    by (elim disjE conjE) simp_all
qed

lemma PSBT_read_field_duplicate:
  assumes "hd key = UNSIGNED_TX \<and> mtx this \<noteq> None
    \<or> hd key \<noteq> UNSIGNED_TX \<and> BufferMap_has (unknown this) key"
  shows "PSBT_read_field env this key br = Inl DuplicateKey"
  using assms unfolding PSBT_read_field_def
  by auto

text \<open>
  C4 does not hold on the code: an input scope with two partial-signature records for
  the same public key decodes without error, the second signature replacing the
  first, and so does one with two BIP32 derivation records for the same public key.
  The two handlers have no check of their slot.
\<close>

theorem duplicate_signature_and_path_accepted:
  "PSBTInput_read sample_env PSBTInput_new
     ([34, 0x02] @ pubkey_G @ [2, 0x30, 0x01] @ [34, 0x02] @ pubkey_G @ [2, 0x30, 0x02] @ [0]) =
     Inr (PSBTInput_new\<lparr>signatures := [(hash_G, (pubkey_G, [0x30, 0x02]))]\<rparr>, [])
   \<and> PSBTInput_read sample_env PSBTInput_new
     ([34, 0x06] @ pubkey_G @ [4, 1, 2, 3, 4] @ [34, 0x06] @ pubkey_G @ [4, 5, 6, 7, 8] @ [0]) =
     Inr (PSBTInput_new\<lparr>paths := [(hash_G, \<lparr>masterFingerPrint = 0x05060708, indexes = []\<rparr>)]\<rparr>, [])"
  by (simp add: eval_defs Path_fromRaw_def Path_read_def Path_read_indexes.simps Path_new_def)

section \<open>What decoding consumes\<close>

text \<open>
  The reader accepts a length only in its shortest form, so what a read consumes is
  what the writer emits for the value read.
\<close>

lemma le_nat_bound: "le_nat bs < 256 ^ length bs"
proof (induction bs)
  case Nil
  show ?case by simp
next
  case (Cons b bs)
  have "unat b < 256"
    using unsigned_less [of b] by simp
  with Cons show ?case
    by simp
qed

lemma le_bytes_le_nat: "length bs = k \<Longrightarrow> le_bytes k (le_nat bs) = bs"
proof (induction bs arbitrary: k)
  case Nil
  then show ?case by simp
next
  case (Cons b bs)
  then obtain j where k: "k = Suc j" "length bs = j"
    by auto
  have b: "unat b < 256"
    using unsigned_less [of b] by simp
  then have "(unat b + 256 * le_nat bs) mod 256 = unat b"
    "(unat b + 256 * le_nat bs) div 256 = le_nat bs"
    by simp_all
  then show ?case
    using Cons.IH [OF k(2)] k by simp
qed

lemma take_drop_bytes: "n \<le> length r \<Longrightarrow> le_bytes n (le_nat (take n r)) @ drop n r = r"
  by (simp add: le_bytes_le_nat)

lemma readVarint_inverse:
  assumes "readVarint br = Inr (n, r)"
  shows "br = writeVarint n @ r"
proof (cases br)
  case Nil
  with assms show ?thesis
    by (simp add: readVarint_def)
next
  case (Cons b r0)
  consider "b = 0xff" | "b = 0xfe" | "b = 0xfd" | "b \<noteq> 0xff" "b \<noteq> 0xfe" "b \<noteq> 0xfd"
    by blast
  then show ?thesis
  proof cases
    case 1
    with assms Cons show ?thesis
      by (auto simp: readVarint_def writeVarint_def take_drop_bytes split: if_splits
          simp del: le_bytes_numeral)
  next
    case 2
    with assms Cons show ?thesis
      using le_nat_bound [of "take 4 r0"]
      by (auto simp: readVarint_def writeVarint_def take_drop_bytes split: if_splits
          simp del: le_bytes_numeral)
  next
    case 3
    with assms Cons show ?thesis
      using le_nat_bound [of "take 2 r0"]
      by (auto simp: readVarint_def writeVarint_def take_drop_bytes split: if_splits
          simp del: le_bytes_numeral)
  next
    case 4
    have ne: "unat b \<noteq> unat c" if "b \<noteq> c" for c :: u8
      using that by (simp add: word_unat_eq_iff)
    have "unat b \<noteq> 0xff" "unat b \<noteq> 0xfe" "unat b \<noteq> 0xfd"
      using ne [OF 4(1)] ne [OF 4(2)] ne [OF 4(3)] by simp_all
    moreover have "unat b < 256"
      using unsigned_less [of b] by simp
    ultimately have "unat b < 0xfd"
      by linarith
    with 4 assms Cons show ?thesis
      by (auto simp: readVarint_def writeVarint_def)
  qed
qed

lemma readVarBytes_inverse:
  assumes "readVarBytes br = Inr (v, r)"
  shows "br = writeVarBytes v @ r"
proof -
  from assms obtain n r0 where n: "readVarint br = Inr (n, r0)" and v: "readBytes n r0 = Inr (v, r)"
    by (auto simp: readVarBytes_def split: sum.splits)
  from v have "length v = n" "r0 = v @ r"
    by (auto simp: readBytes_def split: if_splits)
  with readVarint_inverse [OF n] show ?thesis
    by (simp add: writeVarBytes_def)
qed

lemma readU32BE_inverse:
  assumes "readU32BE br = Inr (w, r)"
  shows "br = writeU32BE w @ r"
proof -
  from assms have len: "4 \<le> length br" and w: "w = word_of_nat (le_nat (rev (take 4 br)))"
    and r: "r = drop 4 br"
    by (auto simp: readU32BE_def split: if_splits)
  have "le_nat (rev (take 4 br)) < 256 ^ 4"
    using le_nat_bound [of "rev (take 4 br)"] len by simp
  then have "unat w = le_nat (rev (take 4 br))"
    unfolding w by (simp add: unat_of_nat)
  then have "le_bytes 4 (unat w) = rev (take 4 br)"
    using len by (simp only: le_bytes_le_nat length_rev length_take min_absorb2)
  then show ?thesis
    using r by (simp add: writeU32BE_def del: le_bytes_numeral)
qed

lemma readU8_inverse: "readU8 br = Inr (b, r) \<Longrightarrow> br = writeU8 b @ r"
  by (auto simp: readU8_def writeU8_def split: list.splits)

lemma readVarBytes_consumes: "readVarBytes br = Inr (v, r) \<Longrightarrow> \<exists>v. br = writeVarBytes v @ r"
  by (blast dest: readVarBytes_inverse)

lemma PSBTInput_read_field_consumes:
  assumes "PSBTInput_read_field env this key br = Inr (this', br')"
  shows "\<exists>v. br = writeVarBytes v @ br'"
  using assms unfolding PSBTInput_read_field_def
  by (auto split: if_splits sum.splits intro: readVarBytes_consumes)

lemma PSBT_read_field_consumes:
  assumes "PSBT_read_field env this key br = Inr (this', br')"
  shows "\<exists>v. br = writeVarBytes v @ br'"
  using assms unfolding PSBT_read_field_def
  by (auto split: if_splits sum.splits intro: readVarBytes_consumes)

lemma consumed_scope_record:
  assumes "consumed_scope s br'" "key \<noteq> []"
  shows "consumed_scope (writeVarBytes key @ writeVarBytes v @ s) br'"
proof -
  from assms(1) obtain kvs where kvs: "\<forall>(key, v) \<in> set kvs. key \<noteq> []"
    "s = scope_records kvs @ [SEPARATOR] \<or> s = scope_records kvs \<and> br' = []"
    unfolding consumed_scope_def by blast
  then have "\<forall>(key, v) \<in> set ((key, v) # kvs). key \<noteq> []"
    "writeVarBytes key @ writeVarBytes v @ s = scope_records ((key, v) # kvs) @ [SEPARATOR]
     \<or> writeVarBytes key @ writeVarBytes v @ s = scope_records ((key, v) # kvs) \<and> br' = []"
    using assms(2) by (auto simp: scope_records_def)
  then show ?thesis
    unfolding consumed_scope_def by blast
qed

lemma consumed_scope_empty: "consumed_scope [] []"
  unfolding consumed_scope_def by (rule exI [of _ "[]"]) (simp add: scope_records_def)

lemma consumed_scope_separator: "consumed_scope [SEPARATOR] br'"
  unfolding consumed_scope_def by (rule exI [of _ "[]"]) (simp add: scope_records_def)

lemma PSBTInput_read_consumes:
  assumes "PSBTInput_read env this br = Inr (this', br')"
  shows "\<exists>s. br = s @ br' \<and> consumed_scope s br'"
  using assms
proof (induction env this br rule: PSBTInput_read.induct)
  case (1 env this br)
  show ?case
  proof (cases "length br = 0")
    case True
    with "1.prems" have "br = []" "br' = []"
      by (simp_all add: PSBTInput_read.simps)
    then show ?thesis
      using consumed_scope_empty by simp
  next
    case False
    with "1.prems"(1) obtain key br1 where k: "readVarBytes br = Inr (key, br1)"
      by (subst (asm) PSBTInput_read.simps) (auto split: sum.splits)
    show ?thesis
    proof (cases "length key = 0")
      case True
      with "1.prems" False k have "br1 = br'"
        by (subst (asm) PSBTInput_read.simps) simp
      with readVarBytes_inverse [OF k] True have "br = [SEPARATOR] @ br'"
        by (simp add: writeVarBytes_def writeVarint_def SEPARATOR_def)
      then show ?thesis
        using consumed_scope_separator by blast
    next
      case nonempty: False
      with "1.prems"(1) False k obtain that br2 where
        f: "PSBTInput_read_field env this key br1 = Inr (that, br2)"
        and r: "PSBTInput_read env that br2 = Inr (this', br')"
        by (subst (asm) PSBTInput_read.simps) (auto split: sum.splits)
      from "1.IH" [OF False k refl nonempty f refl r] obtain s where
        s: "br2 = s @ br'" "consumed_scope s br'"
        by blast
      from PSBTInput_read_field_consumes [OF f] obtain v where v: "br1 = writeVarBytes v @ br2"
        by blast
      have "br = (writeVarBytes key @ writeVarBytes v @ s) @ br'"
        using readVarBytes_inverse [OF k] v s(1) by simp
      moreover have "consumed_scope (writeVarBytes key @ writeVarBytes v @ s) br'"
        using s(2) nonempty by (intro consumed_scope_record) auto
      ultimately show ?thesis
        by blast
    qed
  qed
qed

lemma PSBT_read_global_consumes:
  assumes "PSBT_read_global env this br = Inr (this', br')"
  shows "\<exists>s. br = s @ br' \<and> consumed_scope s br'"
  using assms
proof (induction env this br rule: PSBT_read_global.induct)
  case (1 env this br)
  show ?case
  proof (cases "length br = 0")
    case True
    with "1.prems" have "br = []" "br' = []"
      by (simp_all add: PSBT_read_global.simps)
    then show ?thesis
      using consumed_scope_empty by simp
  next
    case False
    with "1.prems"(1) obtain key br1 where k: "readVarBytes br = Inr (key, br1)"
      by (subst (asm) PSBT_read_global.simps) (auto split: sum.splits)
    show ?thesis
    proof (cases "length key = 0")
      case True
      with "1.prems" False k have "br1 = br'"
        by (subst (asm) PSBT_read_global.simps) simp
      with readVarBytes_inverse [OF k] True have "br = [SEPARATOR] @ br'"
        by (simp add: writeVarBytes_def writeVarint_def SEPARATOR_def)
      then show ?thesis
        using consumed_scope_separator by blast
    next
      case nonempty: False
      with "1.prems"(1) False k obtain that br2 where
        f: "PSBT_read_field env this key br1 = Inr (that, br2)"
        and r: "PSBT_read_global env that br2 = Inr (this', br')"
        by (subst (asm) PSBT_read_global.simps) (auto split: sum.splits)
      from "1.IH" [OF False k refl nonempty f refl r] obtain s where
        s: "br2 = s @ br'" "consumed_scope s br'"
        by blast
      from PSBT_read_field_consumes [OF f] obtain v where v: "br1 = writeVarBytes v @ br2"
        by blast
      have "br = (writeVarBytes key @ writeVarBytes v @ s) @ br'"
        using readVarBytes_inverse [OF k] v s(1) by simp
      moreover have "consumed_scope (writeVarBytes key @ writeVarBytes v @ s) br'"
        using s(2) nonempty by (intro consumed_scope_record) auto
      ultimately show ?thesis
        by blast
    qed
  qed
qed

lemma PSBT_read_inputs_consumes:
  assumes "PSBT_read_inputs env n this br = Inr (this', br')"
  shows "\<exists>scopes decoded. length scopes = n \<and> br = concat scopes @ br'
     \<and> consumed_scopes scopes br'
     \<and> inputs this' = inputs this @ decoded
     \<and> decoded_scopes env scopes decoded br'"
  using assms
proof (induction n arbitrary: this br)
  case 0
  then show ?case
    by simp
next
  case (Suc n)
  from Suc.prems obtain input br1 where
    i: "PSBTInput_read env PSBTInput_new br = Inr (input, br1)"
    and r: "PSBT_read_inputs env n (this\<lparr>inputs := inputs this @ [input]\<rparr>) br1 = Inr (this', br')"
    by (auto simp: PSBTInput_fromReader_def split: sum.splits)
  from PSBTInput_read_consumes [OF i] obtain s where s: "br = s @ br1" "consumed_scope s br1"
    by blast
  from Suc.IH [OF r] obtain scopes decoded where
    scopes: "length scopes = n" "br1 = concat scopes @ br'" "consumed_scopes scopes br'"
    and decoded: "inputs this' = (inputs this @ [input]) @ decoded"
      "decoded_scopes env scopes decoded br'"
    by auto
  have "PSBTInput_fromReader env (s @ concat scopes @ br') = Inr (input, concat scopes @ br')"
    using i s(1) scopes(2) by (simp add: PSBTInput_fromReader_def)
  with s scopes decoded have "length (s # scopes) = Suc n \<and> br = concat (s # scopes) @ br'
     \<and> consumed_scopes (s # scopes) br'
     \<and> inputs this' = inputs this @ (input # decoded)
     \<and> decoded_scopes env (s # scopes) (input # decoded) br'"
    by simp
  then show ?case
    by blast
qed

text \<open>
  C3, amended. For every byte sequence that decoding accepts, the decoded PSBT has
  exactly one input record per input of the embedded transaction, and the bytes are
  the magic, the global scope, then one scope per transaction input, then whatever is
  left unread. Each scope is a run of key/value records with non-empty keys, followed
  by its own zero-length-key terminator, or by nothing when the data ends there: then
  no later scope has a byte and no byte is left unread. Each input record is what the
  input decoder returns on its scope, stopping where the next scope starts.
\<close>

theorem PSBT_read_input_scopes:
  assumes "PSBT_read env PSBT_new br = Inr (p, rest)"
  shows "\<exists>m g scopes. mtx p = Some m
     \<and> length (inputs p) = length (tx_inputs m)
     \<and> length scopes = length (tx_inputs m)
     \<and> br = writeU32BE MAGIC @ writeU8 MAGIC_SEP @ g @ concat scopes @ rest
     \<and> consumed_scope g (concat scopes @ rest)
     \<and> consumed_scopes scopes rest
     \<and> decoded_scopes env scopes (inputs p) rest"
proof -
  from assms obtain br1 br2 q br3 m where
    magic: "readU32BE br = Inr (MAGIC, br1)" and sep: "readU8 br1 = Inr (MAGIC_SEP, br2)"
    and g: "PSBT_read_global env PSBT_new br2 = Inr (q, br3)" and m: "mtx q = Some m"
    and i: "PSBT_read_inputs env (length (tx_inputs m)) q br3 = Inr (p, rest)"
    unfolding PSBT_read_def by (auto split: sum.splits if_splits option.splits)
  from PSBT_read_global_consumes [OF g] obtain gs where gs: "br2 = gs @ br3" "consumed_scope gs br3"
    by blast
  from PSBT_read_inputs_consumes [OF i] obtain scopes decoded where
    scopes: "length scopes = length (tx_inputs m)" "br3 = concat scopes @ rest"
    "consumed_scopes scopes rest"
    and decoded: "inputs p = inputs q @ decoded" "decoded_scopes env scopes decoded rest"
    by blast
  have q: "inputs q = []"
    using PSBT_read_global_keeps_records [OF g] by (simp add: PSBT_new_def)
  then have "mtx p = Some m" "length (inputs p) = length (tx_inputs m)"
    using PSBT_read_inputs_result [OF i] m by simp_all
  moreover have "br = writeU32BE MAGIC @ writeU8 MAGIC_SEP @ gs @ concat scopes @ rest"
    using readU32BE_inverse [OF magic] readU8_inverse [OF sep] gs(1) scopes(2) by simp
  moreover have "decoded_scopes env scopes (inputs p) rest"
    using decoded q by simp
  ultimately show ?thesis
    using scopes(1,3) gs(2) scopes(2) by blast
qed

text \<open>
  A PSBT for \<open>sample_tx\<close> (one input, one output) with nothing but the transaction
  in its global scope and an empty input and output scope, and the same PSBT cut off
  after the global scope.
\<close>

lemma sample_read:
  "PSBT_read sample_env PSBT_new
     ([0x70, 0x73, 0x62, 0x74, 0xff, 0x01, 0x00, 61] @ sample_tx_raw @ [0x00, 0x00, 0x00]) =
   Inr (\<lparr>inputs = [PSBTInput_new], outputs = [], unknown = [], mtx = Some sample_tx\<rparr>, [0x00])"
  by (simp add: eval_defs)

lemma sample_read_truncated:
  "PSBT_read sample_env PSBT_new
     ([0x70, 0x73, 0x62, 0x74, 0xff, 0x01, 0x00, 61] @ sample_tx_raw @ [0x00]) =
   Inr (\<lparr>inputs = [PSBTInput_new], outputs = [], unknown = [], mtx = Some sample_tx\<rparr>, [])"
  by (simp add: eval_defs)

text \<open>
  C3, as stated, fails: decoding the first leaves the output scope unread and the
  decoded PSBT has no output record, for a transaction with one output; decoding the
  second succeeds with an input record for which no byte and no terminator was
  consumed.
\<close>

theorem PSBT_read_no_output_records_counterexample:
  "PSBT_read sample_env PSBT_new
     ([0x70, 0x73, 0x62, 0x74, 0xff, 0x01, 0x00, 61] @ sample_tx_raw @ [0x00, 0x00, 0x00]) =
   Inr (\<lparr>inputs = [PSBTInput_new], outputs = [], unknown = [], mtx = Some sample_tx\<rparr>, [0x00])
   \<and> length (tx_outputs sample_tx) = 1
   \<and> length (outputs \<lparr>inputs = [PSBTInput_new], outputs = [], unknown = [], mtx = Some sample_tx\<rparr>)
       \<noteq> length (tx_outputs sample_tx)
   \<and> PSBT_read sample_env PSBT_new
     ([0x70, 0x73, 0x62, 0x74, 0xff, 0x01, 0x00, 61] @ sample_tx_raw @ [0x00]) =
   Inr (\<lparr>inputs = [PSBTInput_new], outputs = [], unknown = [], mtx = Some sample_tx\<rparr>, [])"
proof -
  have "length (tx_outputs sample_tx) = 1"
    by (simp add: sample_tx_def)
  then show ?thesis
    using sample_read sample_read_truncated by simp
qed

theorem PSBT_read_input_scopes_witness:
  "PSBT_read sample_env PSBT_new
     ([0x70, 0x73, 0x62, 0x74, 0xff, 0x01, 0x00, 61] @ sample_tx_raw @ [0x00, 0x00, 0x00]) =
   Inr (\<lparr>inputs = [PSBTInput_new], outputs = [], unknown = [], mtx = Some sample_tx\<rparr>, [0x00])
   \<and> (\<exists>g scopes. length scopes = 1
     \<and> [0x70, 0x73, 0x62, 0x74, 0xff, 0x01, 0x00, 61] @ sample_tx_raw @ [0x00, 0x00, 0x00] =
         writeU32BE MAGIC @ writeU8 MAGIC_SEP @ g @ concat scopes @ [0x00]
     \<and> consumed_scope g (concat scopes @ [0x00])
     \<and> consumed_scopes scopes [0x00]
     \<and> decoded_scopes sample_env scopes [PSBTInput_new] [0x00])"
proof -
  have one: "length (tx_inputs sample_tx) = 1"
    by (simp add: sample_tx_def)
  from PSBT_read_input_scopes [OF sample_read] obtain m g scopes where
    "mtx \<lparr>inputs = [PSBTInput_new], outputs = [], unknown = [], mtx = Some sample_tx\<rparr> = Some m"
    "length scopes = length (tx_inputs m)"
    "[0x70, 0x73, 0x62, 0x74, 0xff, 0x01, 0x00, 61] @ sample_tx_raw @ [0x00, 0x00, 0x00] =
       writeU32BE MAGIC @ writeU8 MAGIC_SEP @ g @ concat scopes @ [0x00]"
    "consumed_scope g (concat scopes @ [0x00])"
    "consumed_scopes scopes [0x00]"
    "decoded_scopes sample_env scopes
       (inputs \<lparr>inputs = [PSBTInput_new], outputs = [], unknown = [], mtx = Some sample_tx\<rparr>) [0x00]"
    by blast
  then have "length scopes = 1
     \<and> [0x70, 0x73, 0x62, 0x74, 0xff, 0x01, 0x00, 61] @ sample_tx_raw @ [0x00, 0x00, 0x00] =
         writeU32BE MAGIC @ writeU8 MAGIC_SEP @ g @ concat scopes @ [0x00]
     \<and> consumed_scope g (concat scopes @ [0x00])
     \<and> consumed_scopes scopes [0x00]
     \<and> decoded_scopes sample_env scopes [PSBTInput_new] [0x00]"
    using one by simp
  then show ?thesis
    using sample_read by blast
qed

section \<open>Encoding and decoding again\<close>

lemma BufferMap_set_fresh: "k \<notin> set (map fst m) \<Longrightarrow> BufferMap_set m k v = m @ [(k, v)]"
  by (induction m) auto

lemma PSBTInput_read_field_PARTIAL_SIG:
  assumes "hd key = PARTIAL_SIG" "length key = 34 \<or> length key = 66"
    "publicKeyVerify env (tl key)" "length sg < 2 ^ 53"
  shows "PSBTInput_read_field env this key (writeVarBytes sg @ br) =
     Inr (this\<lparr>signatures :=
            BufferMap_set (signatures this) (hash160 env (tl key)) (tl key, sg)\<rparr>, br)"
  using assms
  by (auto simp: PSBTInput_read_field_def common_defs readVarBytes_writeVarBytes)

lemma PSBTInput_read_field_NON_WITNESS_UTXO:
  assumes "hd key = NON_WITNESS_UTXO" "length raw < 2 ^ 53" "TX_fromRaw env raw = Inr t"
  shows "PSBTInput_read_field env this key (writeVarBytes raw @ br) =
     (if tx this \<noteq> None then Inl DuplicateKey else Inr (this\<lparr>tx := Some t\<rparr>, br))"
  using assms
  by (simp add: PSBTInput_read_field_def common_defs readVarBytes_writeVarBytes)

lemma PSBTInput_read_field_WITNESS_UTXO:
  assumes "hd key = WITNESS_UTXO" "length raw < 2 ^ 53" "Output_fromRaw env raw = Inr out"
  shows "PSBTInput_read_field env this key (writeVarBytes raw @ br) =
     (if output' this \<noteq> None then Inl DuplicateKey else Inr (this\<lparr>output' := Some out\<rparr>, br))"
  using assms
  by (simp add: PSBTInput_read_field_def common_defs readVarBytes_writeVarBytes)

lemma key_record_Suc: "writeVarint (Suc 0) @ writeU8 ty @ br = writeVarBytes [ty] @ br"
  by (simp add: writeVarBytes_def writeU8_def)

lemma PSBTInput_read_signatures:
  assumes "list_all (\<lambda>(h, pubkey, sg).
          h = hash160 env pubkey \<and> (length pubkey = 33 \<or> length pubkey = 65)
          \<and> publicKeyVerify env pubkey \<and> length sg < 2 ^ 53) ss"
    and "distinct (map fst (signatures this @ ss))"
  shows "PSBTInput_read env this
      (concat (map (\<lambda>sigpair.
              writeVarint (length (fst sigpair) + 1) @ writeU8 PARTIAL_SIG @ fst sigpair
              @ writeVarBytes (snd sigpair)) (BufferMap_values ss)) @ br) =
     PSBTInput_read env (this\<lparr>signatures := signatures this @ ss\<rparr>) br"
  using assms
proof (induction ss arbitrary: this)
  case Nil
  then show ?case
    by (simp add: BufferMap_values_def)
next
  case (Cons e ss)
  obtain h pubkey sg where e: "e = (h, pubkey, sg)"
    by (cases e) auto
  from Cons.prems(1) e have h: "h = hash160 env pubkey"
    and len: "length pubkey = 33 \<or> length pubkey = 65"
    and ok: "publicKeyVerify env pubkey" and sg: "length sg < 2 ^ 53"
    and rest: "list_all (\<lambda>(h, pubkey, sg).
          h = hash160 env pubkey \<and> (length pubkey = 33 \<or> length pubkey = 65)
          \<and> publicKeyVerify env pubkey \<and> length sg < 2 ^ 53) ss"
    by auto
  let ?key = "PARTIAL_SIG # pubkey"
  let ?that = "this\<lparr>signatures := signatures this @ [e]\<rparr>"
  let ?bytes = "concat (map (\<lambda>sigpair.
              writeVarint (length (fst sigpair) + 1) @ writeU8 PARTIAL_SIG @ fst sigpair
              @ writeVarBytes (snd sigpair)) (BufferMap_values ss)) @ br"
  have fresh: "h \<notin> set (map fst (signatures this))"
    using Cons.prems(2) e by auto
  have key: "?key \<noteq> []" "length ?key < 2 ^ 53" "hd ?key = PARTIAL_SIG"
    "length ?key = 34 \<or> length ?key = 66" "publicKeyVerify env (tl ?key)"
    using len ok by auto
  have "PSBTInput_read env this (writeVarBytes ?key @ writeVarBytes sg @ ?bytes) =
      PSBTInput_read env ?that ?bytes"
    using fresh h e
    by (simp only: PSBTInput_read_record [OF key(1,2)]
        PSBTInput_read_field_PARTIAL_SIG [OF key(3,4,5) sg])
      (simp add: BufferMap_set_fresh)
  moreover have "PSBTInput_read env ?that ?bytes =
      PSBTInput_read env (?that\<lparr>signatures := signatures ?that @ ss\<rparr>) br"
    using rest Cons.prems(2) by (intro Cons.IH) simp_all
  ultimately show ?case
    using e by (simp add: BufferMap_values_def writeVarBytes_def writeU8_def)
qed

lemma bufio_readU32_writeU32: "bufio_readU32 (writeU32 w) = Inr w"
proof -
  have "unat w < 256 ^ 4"
    using unsigned_less [of w] by simp
  then have "le_nat (le_bytes 4 (unat w)) = unat w"
    by (simp only: le_nat_le_bytes mod_less)
  then show ?thesis
    by (simp add: bufio_readU32_def writeU32_def length_le_bytes del: le_bytes_numeral)
qed

lemma PSBTInput_read_utxo:
  assumes "canonical_input env input"
  shows "PSBTInput_read env PSBTInput_new
      ((case tx input of
          Some t \<Rightarrow> writeVarint 1 @ writeU8 NON_WITNESS_UTXO @ writeVarBytes (TX_toRaw env t)
        | None \<Rightarrow>
            (case output' input of
               Some out \<Rightarrow>
                 writeVarint 1 @ writeU8 WITNESS_UTXO @ writeVarBytes (Output_toRaw env out)
             | None \<Rightarrow> [])) @ br) =
     PSBTInput_read env (PSBTInput_new\<lparr>tx := tx input, output' := output' input\<rparr>) br"
proof (cases "tx input")
  case None
  show ?thesis
  proof (cases "output' input")
    case none: None
    with None show ?thesis
      by (simp add: PSBTInput_new_def)
  next
    case (Some out)
    with assms have "length (Output_toRaw env out) < 2 ^ 53"
      "Output_fromRaw env (Output_toRaw env out) = Inr out"
      by (simp_all add: canonical_input_def)
    with None Some show ?thesis
      by (simp add: key_record_Suc PSBTInput_read_record PSBTInput_read_field_WITNESS_UTXO)
        (simp add: PSBTInput_new_def)
  qed
next
  case (Some t)
  with assms have "length (TX_toRaw env t) < 2 ^ 53" "TX_fromRaw env (TX_toRaw env t) = Inr t"
    and "output' input = None"
    by (simp_all add: canonical_input_def)
  with Some show ?thesis
    by (simp add: key_record_Suc PSBTInput_read_record PSBTInput_read_field_NON_WITNESS_UTXO)
      (simp add: PSBTInput_new_def)
qed

lemma PSBTInput_read_hashType:
  assumes "hashType this = 0"
  shows "PSBTInput_read env this
      ((if 0 < hashType input then
               writeVarint 1 @ writeU8 SIGHASH @ writeVarint 4 @ writeU32 (hashType input)
             else []) @ br) =
     PSBTInput_read env (this\<lparr>hashType := hashType input\<rparr>) br"
proof (cases "0 < hashType input")
  case True
  have v: "writeVarint 4 @ writeU32 w @ br = writeVarBytes (writeU32 w) @ br" for w
    by (simp add: writeVarBytes_def writeU32_def length_le_bytes del: le_bytes_numeral)
  have "length (writeU32 (hashType input)) < 2 ^ 53"
    by (simp add: writeU32_def length_le_bytes del: le_bytes_numeral)
  then show ?thesis
    using True assms
    by (simp add: key_record_Suc v PSBTInput_read_record
        PSBTInput_read_field_SIGHASH bufio_readU32_writeU32)
next
  case False
  then have "hashType input = 0"
    by (simp add: word_greater_zero_iff)
  with assms have "this\<lparr>hashType := hashType input\<rparr> = this"
    by simp
  with False show ?thesis
    by simp
qed

lemma PSBTInput_read_written:
  assumes "canonical_input env input"
  shows "PSBTInput_read env PSBTInput_new (PSBTInput_write env input @ writeU8 SEPARATOR @ rest) =
     Inr (input, rest)"
proof -
  let ?this1 = "PSBTInput_new\<lparr>tx := tx input, output' := output' input\<rparr>"
  let ?this2 = "?this1\<lparr>signatures := signatures ?this1 @ signatures input\<rparr>"
  let ?this3 = "?this2\<lparr>hashType := hashType input\<rparr>"
  let ?utxo = "case tx input of
          Some t \<Rightarrow> writeVarint 1 @ writeU8 NON_WITNESS_UTXO @ writeVarBytes (TX_toRaw env t)
        | None \<Rightarrow>
            (case output' input of
               Some out \<Rightarrow>
                 writeVarint 1 @ writeU8 WITNESS_UTXO @ writeVarBytes (Output_toRaw env out)
             | None \<Rightarrow> [])"
  let ?sigs = "concat (map (\<lambda>sigpair.
              writeVarint (length (fst sigpair) + 1) @ writeU8 PARTIAL_SIG @ fst sigpair
              @ writeVarBytes (snd sigpair)) (BufferMap_values (signatures input)))"
  let ?hash = "if 0 < hashType input then
               writeVarint 1 @ writeU8 SIGHASH @ writeVarint 4 @ writeU32 (hashType input)
             else []"
  from assms have fields: "redeem input = None" "redeemWitness input = None" "script input = None"
    "witnessStack input = None" "paths input = []" "input_unknown input = []"
    and d: "distinct (map fst (signatures input))"
    and ss: "list_all (\<lambda>(h, pubkey, sg).
          h = hash160 env pubkey \<and> (length pubkey = 33 \<or> length pubkey = 65)
          \<and> publicKeyVerify env pubkey \<and> length sg < 2 ^ 53) (signatures input)"
    by (simp_all add: canonical_input_def)
  have written: "PSBTInput_write env input @ writeU8 SEPARATOR @ rest =
      ?utxo @ ?sigs @ ?hash @ SEPARATOR # rest"
    unfolding PSBTInput_write_def
    by (simp only: fields(3,4) simp_thms if_True append_assoc writeU8_def append_Cons append_Nil)
  have "PSBTInput_read env PSBTInput_new (?utxo @ ?sigs @ ?hash @ SEPARATOR # rest) =
      PSBTInput_read env ?this1 (?sigs @ ?hash @ SEPARATOR # rest)"
    by (rule PSBTInput_read_utxo [OF assms])
  also have "\<dots> = PSBTInput_read env ?this2 (?hash @ SEPARATOR # rest)"
    using ss d by (intro PSBTInput_read_signatures) (simp_all add: PSBTInput_new_def)
  also have "\<dots> = PSBTInput_read env ?this3 (SEPARATOR # rest)"
    by (intro PSBTInput_read_hashType) (simp add: PSBTInput_new_def)
  also have "\<dots> = Inr (?this3, rest)"
    by (simp only: SEPARATOR_def PSBTInput_read_separator)
  also have "?this3 = input"
    using fields by (simp add: PSBTInput_new_def)
  finally show ?thesis
    by (simp only: written)
qed

lemma PSBT_read_global_unknown:
  assumes "list_all (\<lambda>(key, v).
          key \<noteq> [] \<and> hd key \<noteq> UNSIGNED_TX \<and> length key < 2 ^ 53 \<and> length v < 2 ^ 53) kvs"
    and "distinct (map fst (unknown this @ kvs))"
  shows "PSBT_read_global env this
      (concat (map (\<lambda>(key, v). writeVarBytes key @ writeVarBytes v) kvs) @ br) =
     PSBT_read_global env (this\<lparr>unknown := unknown this @ kvs\<rparr>) br"
  using assms
proof (induction kvs arbitrary: this)
  case Nil
  then show ?case
    by simp
next
  case (Cons e kvs)
  obtain key v where e: "e = (key, v)"
    by (cases e) auto
  let ?that = "this\<lparr>unknown := unknown this @ [e]\<rparr>"
  let ?bytes = "concat (map (\<lambda>(key, v). writeVarBytes key @ writeVarBytes v) kvs) @ br"
  from Cons.prems(1) e have key: "key \<noteq> []" "length key < 2 ^ 53"
    and ty: "hd key \<noteq> UNSIGNED_TX" and v: "length v < 2 ^ 53"
    and rest: "list_all (\<lambda>(key, v).
          key \<noteq> [] \<and> hd key \<noteq> UNSIGNED_TX \<and> length key < 2 ^ 53 \<and> length v < 2 ^ 53) kvs"
    by auto
  have fresh: "key \<notin> set (map fst (unknown this))"
    using Cons.prems(2) e by auto
  then have "PSBT_read_field env this key (writeVarBytes v @ ?bytes) = Inr (?that, ?bytes)"
    using ty v e
    by (simp add: PSBT_read_field_def BufferMap_has_def readVarBytes_writeVarBytes
        BufferMap_set_fresh)
  then have "PSBT_read_global env this (writeVarBytes key @ writeVarBytes v @ ?bytes) =
      PSBT_read_global env ?that ?bytes"
    by (simp add: PSBT_read_global_record [OF key])
  moreover have "PSBT_read_global env ?that ?bytes =
      PSBT_read_global env (?that\<lparr>unknown := unknown ?that @ kvs\<rparr>) br"
    using rest Cons.prems(2) by (intro Cons.IH) simp_all
  ultimately show ?case
    using e by simp
qed

lemma PSBT_read_inputs_written:
  assumes "list_all (canonical_input env) ins"
  shows "PSBT_read_inputs env (length ins) this
      (concat (map (\<lambda>input. PSBTInput_write env input @ writeU8 SEPARATOR) ins) @ rest) =
     Inr (this\<lparr>inputs := inputs this @ ins\<rparr>, rest)"
  using assms
proof (induction ins arbitrary: this)
  case Nil
  show ?case
    by simp
next
  case (Cons input ins)
  then have "canonical_input env input" "list_all (canonical_input env) ins"
    by simp_all
  then show ?case
    using Cons.IH [of "this\<lparr>inputs := inputs this @ [input]\<rparr>"]
    by (simp add: PSBTInput_fromReader_def PSBTInput_read_written)
qed

text \<open>
  C1, amended. For every PSBT in canonical form, \<open>write\<close> succeeds, and decoding the
  bytes \<open>b\<close> it produces succeeds, consumes all of \<open>b\<close> and gives the PSBT back; so
  re-encoding the value decoded from \<open>b\<close> yields exactly \<open>b\<close>.
\<close>

theorem canonical_round_trip:
  assumes "canonical env this"
  shows "\<exists>b. PSBT_write env this [] = (b, None)
     \<and> PSBT_read env PSBT_new b = Inr (this, [])
     \<and> (\<forall>q r. PSBT_read env PSBT_new b = Inr (q, r) \<longrightarrow> PSBT_write env q [] = (b, None))"
proof -
  from assms obtain m where m: "mtx this = Some m"
    by (auto simp: canonical_def split: option.splits)
  with assms have out: "outputs this = []"
    and u: "isTransactionUnsigned m" and size: "TX_getSize env m = length (TX_toRaw env m)"
    and len: "length (TX_toRaw env m) < 2 ^ 53"
    and rt: "TX_fromRaw env (TX_toRaw env m) = Inr m"
    and n: "length (inputs this) = length (tx_inputs m)"
    and d: "distinct (map fst (unknown this))"
    and kvs: "list_all (\<lambda>(key, v).
          key \<noteq> [] \<and> hd key \<noteq> UNSIGNED_TX \<and> length key < 2 ^ 53 \<and> length v < 2 ^ 53)
        (unknown this)"
    and ins: "list_all (canonical_input env) (inputs this)"
    by (simp_all add: canonical_def)
  let ?inputs = "concat (map (\<lambda>input. PSBTInput_write env input @ writeU8 SEPARATOR) (inputs this))"
  let ?unknown = "concat (map (\<lambda>(key, v). writeVarBytes key @ writeVarBytes v) (unknown this))"
  let ?global = "writeVarBytes [UNSIGNED_TX] @ writeVarBytes (TX_toRaw env m) @ ?unknown
      @ SEPARATOR # ?inputs"
  let ?q = "PSBT_new\<lparr>mtx := Some m\<rparr>"
  have written: "PSBT_write env this [] = (writeU32BE MAGIC @ writeU8 MAGIC_SEP @ ?global, None)"
    using m size by (simp add: PSBT_write_def Let_def writeVarBytes_def writeU8_def)
  have "PSBT_read_global env PSBT_new ?global =
      PSBT_read_global env ?q (?unknown @ SEPARATOR # ?inputs)"
    using u len rt
    by (simp add: PSBT_read_global_record PSBT_read_field_UNSIGNED_TX PSBT_new_def)
  also have "\<dots> = PSBT_read_global env (?q\<lparr>unknown := unknown ?q @ unknown this\<rparr>)
      (SEPARATOR # ?inputs)"
    using kvs d by (intro PSBT_read_global_unknown) (simp_all add: PSBT_new_def)
  also have "\<dots> = Inr (?q\<lparr>unknown := unknown this\<rparr>, ?inputs)"
    by (simp add: SEPARATOR_def PSBT_read_global_separator PSBT_new_def)
  finally have global: "PSBT_read_global env PSBT_new ?global =
      Inr (?q\<lparr>unknown := unknown this\<rparr>, ?inputs)" .
  have "PSBT_read_inputs env (length (inputs this)) (?q\<lparr>unknown := unknown this\<rparr>)
      (?inputs @ []) =
      Inr (?q\<lparr>unknown := unknown this,
             inputs := inputs (?q\<lparr>unknown := unknown this\<rparr>) @ inputs this\<rparr>, [])"
    using ins by (rule PSBT_read_inputs_written)
  moreover have "?q\<lparr>unknown := unknown this,
             inputs := inputs (?q\<lparr>unknown := unknown this\<rparr>) @ inputs this\<rparr> = this"
    using m out by (simp add: PSBT_new_def)
  ultimately have "PSBT_read_inputs env (length (tx_inputs m)) (?q\<lparr>unknown := unknown this\<rparr>)
      ?inputs = Inr (this, [])"
    using n by simp
  with global have "PSBT_read env PSBT_new (writeU32BE MAGIC @ writeU8 MAGIC_SEP @ ?global) =
      Inr (this, [])"
    by (simp add: PSBT_read_def readU32BE_writeU32BE readU8_def writeU8_def)
  with written show ?thesis
    by simp
qed

lemma psbt_signed_input_write:
  "PSBT_write sample_env psbt_signed_input [] = (psbt_signed_input_raw, None)"
  by (simp add: psbt_signed_input_def psbt_signed_input_raw_def PSBT_write_def Let_def
      PSBTInput_write_def BufferMap_values_def eval_defs)

lemma canonical_sample: "canonical sample_env psbt_signed_input"
  by (simp add: canonical_def canonical_input_def psbt_signed_input_def eval_defs)

theorem canonical_round_trip_witness:
  "canonical sample_env psbt_signed_input
   \<and> PSBT_write sample_env psbt_signed_input [] = (psbt_signed_input_raw, None)
   \<and> PSBT_read sample_env PSBT_new psbt_signed_input_raw = Inr (psbt_signed_input, [])"
  using canonical_round_trip [OF canonical_sample] canonical_sample
  by (simp add: psbt_signed_input_write)

lemma reordered_read:
  "PSBT_read sample_env PSBT_new reordered_raw =
     Inr (\<lparr>inputs = [PSBTInput_new\<lparr>signatures := [(hash_G, (pubkey_G, [0x30, 0x01]))],
                  hashType := 1\<rparr>], outputs = [], unknown = [], mtx = Some sample_tx\<rparr>, [])"
  by (simp add: reordered_raw_def eval_defs)

lemma reordered_write:
  "PSBT_write sample_env \<lparr>inputs = [PSBTInput_new\<lparr>signatures := [(hash_G, (pubkey_G, [0x30, 0x01]))],
                  hashType := 1\<rparr>], outputs = [], unknown = [], mtx = Some sample_tx\<rparr> [] =
    ([0x70, 0x73, 0x62, 0x74, 0xff, 0x01, 0x00, 61] @ sample_tx_raw @ [0x00]
     @ [34, 0x02] @ pubkey_G @ [0x02, 0x30, 0x01]
     @ [0x01, 0x03, 0x04, 0x01, 0x00, 0x00, 0x00]
     @ [0x00], None)"
  by (simp add: PSBT_write_def Let_def PSBTInput_write_def BufferMap_values_def eval_defs)

lemma redeem_read:
  "PSBT_read sample_env PSBT_new redeem_raw =
     Inr (\<lparr>inputs = [PSBTInput_new\<lparr>redeem := Some [0x51]\<rparr>], outputs = [], unknown = [],
           mtx = Some sample_tx\<rparr>, [])"
  by (simp add: redeem_raw_def eval_defs)

lemma redeem_write:
  "PSBT_write sample_env \<lparr>inputs = [PSBTInput_new\<lparr>redeem := Some [0x51]\<rparr>], outputs = [],
      unknown = [], mtx = Some sample_tx\<rparr> [] =
    ([0x70, 0x73, 0x62, 0x74, 0xff, 0x01, 0x00, 61] @ sample_tx_raw @ [0x00] @ [0x00], None)"
  by (simp add: PSBT_write_def Let_def PSBTInput_write_def BufferMap_values_def eval_defs)

text \<open>
  C1, as stated, fails: both byte sequences decode without error, and re-encoding the
  decoded value gives other bytes. For the first, \<open>write\<close> emits the partial signature
  before the sighash type; for the second, it emits nothing for the redeem script.
\<close>

theorem reencoding_differs_counterexample:
  "(\<exists>q. PSBT_read sample_env PSBT_new reordered_raw = Inr (q, [])
      \<and> snd (PSBT_write sample_env q []) = None
      \<and> fst (PSBT_write sample_env q []) \<noteq> reordered_raw)
   \<and> (\<exists>q. PSBT_read sample_env PSBT_new redeem_raw = Inr (q, [])
      \<and> snd (PSBT_write sample_env q []) = None
      \<and> fst (PSBT_write sample_env q []) \<noteq> redeem_raw)"
proof
  have "[0x70, 0x73, 0x62, 0x74, 0xff, 0x01, 0x00, 61] @ sample_tx_raw @ [0x00]
     @ [34, 0x02] @ pubkey_G @ [0x02, 0x30, 0x01]
     @ [0x01, 0x03, 0x04, 0x01, 0x00, 0x00, 0x00]
     @ [0x00] \<noteq> reordered_raw"
    by (simp add: reordered_raw_def sample_defs)
  then show "\<exists>q. PSBT_read sample_env PSBT_new reordered_raw = Inr (q, [])
      \<and> snd (PSBT_write sample_env q []) = None
      \<and> fst (PSBT_write sample_env q []) \<noteq> reordered_raw"
    by (simp add: reordered_read reordered_write)
next
  have "[0x70, 0x73, 0x62, 0x74, 0xff, 0x01, 0x00, 61] @ sample_tx_raw @ [0x00] @ [0x00]
      \<noteq> redeem_raw"
    by (simp add: redeem_raw_def sample_defs)
  then show "\<exists>q. PSBT_read sample_env PSBT_new redeem_raw = Inr (q, [])
      \<and> snd (PSBT_write sample_env q []) = None
      \<and> fst (PSBT_write sample_env q []) \<noteq> redeem_raw"
    by (simp add: redeem_read redeem_write)
qed

end
